theory Spec2Isabelle
  imports Main "HOL-Library.Word"
begin

section \<open>Data model of the BillTheAccountant contract\<close>

text \<open>
  The contract is compiled with Solidity 0.8.20: \<open>uint256\<close> arithmetic is checked, an
  overflow or underflow reverts the transaction with an arithmetic panic. A reverted call
  leaves storage and the event log as they were, so every function of the contract is
  modelled as a function from the contract state to either an error or the new state.
\<close>

type_synonym uint256 = "256 word"
type_synonym address = "160 word"

datatype error =
    Require string   \<comment> \<open>a failed \<open>require\<close> with its message\<close>
  | Panic            \<comment> \<open>checked arithmetic overflowed or underflowed\<close>
  | ExternalRevert   \<comment> \<open>the external call reverted and the revert bubbled up\<close>

record PendingDebt =
  creditor :: address
  debtor :: address
  token :: address
  amount :: uint256
  memo :: string
  exists :: bool

datatype event =
    DebtAdded uint256 address address address uint256 string uint256
      \<comment> \<open>actionId, debtor, creditor, token, amount, memo, timestamp\<close>
  | DebtSettled address address address uint256
      \<comment> \<open>debtor, creditor, token, amount\<close>
  | DebtProposed uint256 address address address uint256 string
      \<comment> \<open>pendingDebtId, creditor, debtor, token, amount, memo\<close>
  | DebtConfirmed uint256
  | DebtRejected uint256
  | UserRegistered string address

text \<open>Storage of the contract, and the log of the events it has emitted, oldest first.\<close>

record contract =
  debts :: "address \<Rightarrow> address \<Rightarrow> address \<Rightarrow> uint256"
  debtActionCounter :: uint256
  discordToWallet :: "string \<Rightarrow> address"
  walletToDiscord :: "address \<Rightarrow> string"
  pendingDebts :: "uint256 \<Rightarrow> PendingDebt"
  pendingDebtCounter :: uint256
  events :: "event list"

text \<open>The value a deleted or never written \<open>PendingDebt\<close> slot reads as.\<close>

definition no_pending :: PendingDebt where
  "no_pending = \<lparr>creditor = 0, debtor = 0, token = 0, amount = 0, memo = [], exists = False\<rparr>"

text \<open>The freshly deployed contract.\<close>

definition init :: contract where
  "init = \<lparr>debts = (\<lambda>_ _ _. 0), debtActionCounter = 0, discordToWallet = (\<lambda>_. 0),
            walletToDiscord = (\<lambda>_. []), pendingDebts = (\<lambda>_. no_pending),
            pendingDebtCounter = 0, events = []\<rparr>"

section \<open>Checked arithmetic, require, emit\<close>

definition and_then :: "error + 'a \<Rightarrow> ('a \<Rightarrow> error + 'b) \<Rightarrow> error + 'b" where
  "and_then m f = (case m of Inl e \<Rightarrow> Inl e | Inr x \<Rightarrow> f x)"

definition require :: "bool \<Rightarrow> string \<Rightarrow> error + 'a \<Rightarrow> error + 'a" where
  "require c msg k = (if c then k else Inl (Require msg))"

definition checked_add :: "uint256 \<Rightarrow> uint256 \<Rightarrow> error + uint256" where
  "checked_add a b = (if unat a + unat b < 2 ^ 256 then Inr (a + b) else Inl Panic)"

definition checked_sub :: "uint256 \<Rightarrow> uint256 \<Rightarrow> error + uint256" where
  "checked_sub a b = (if b \<le> a then Inr (a - b) else Inl Panic)"

definition emit :: "event \<Rightarrow> contract \<Rightarrow> contract" where
  "emit e s = s\<lparr>events := events s @ [e]\<rparr>"

definition set_debt :: "address \<Rightarrow> address \<Rightarrow> address \<Rightarrow> uint256 \<Rightarrow> contract \<Rightarrow> contract" where
  "set_debt tok d c v s = s\<lparr>debts := (debts s)(tok := (debts s tok)(d := (debts s tok d)(c := v)))\<rparr>"

section \<open>The functions of the contract\<close>

definition proposeDebt ::
  "address \<Rightarrow> address \<Rightarrow> address \<Rightarrow> uint256 \<Rightarrow> string \<Rightarrow> contract \<Rightarrow> error + contract" where
  "proposeDebt sender tok dbt amt mem s =
     require (dbt \<noteq> sender) ''Debtor and creditor cannot be the same''
       (and_then (checked_add (pendingDebtCounter s) 1) (\<lambda>n.
          Inr (emit (DebtProposed n sender dbt tok amt mem)
                 (s\<lparr>pendingDebtCounter := n,
                    pendingDebts := (pendingDebts s)
                      (n := \<lparr>creditor = sender, debtor = dbt, token = tok, amount = amt,
                             memo = mem, exists = True\<rparr>)\<rparr>))))"

text \<open>\<open>addDebt\<close> is internal; \<open>now\<close> is \<open>block.timestamp\<close>.\<close>

definition addDebt ::
  "uint256 \<Rightarrow> address \<Rightarrow> address \<Rightarrow> address \<Rightarrow> uint256 \<Rightarrow> string \<Rightarrow> contract \<Rightarrow> error + contract" where
  "addDebt now tok dbt crd amt mem s =
     require (dbt \<noteq> crd) ''Debtor and creditor cannot be the same''
       (require (0 < amt) ''Debt amount must be positive''
          (let existingOppositeDebt = debts s tok crd dbt in
           and_then
             (if amt \<le> existingOppositeDebt then
                and_then (checked_sub existingOppositeDebt amt) (\<lambda>v.
                  Inr (set_debt tok crd dbt v s))
              else
                (let s1 = (if 0 < existingOppositeDebt then set_debt tok crd dbt 0 s else s) in
                 and_then (checked_sub amt existingOppositeDebt) (\<lambda>d.
                 and_then (checked_add (debts s1 tok dbt crd) d) (\<lambda>v.
                   Inr (set_debt tok dbt crd v s1)))))
             (\<lambda>s2.
                and_then (checked_add (debtActionCounter s2) 1) (\<lambda>n.
                  Inr (emit (DebtAdded n dbt crd tok amt mem now)
                         (s2\<lparr>debtActionCounter := n\<rparr>))))))"

definition confirmDebt :: "uint256 \<Rightarrow> address \<Rightarrow> uint256 \<Rightarrow> contract \<Rightarrow> error + contract" where
  "confirmDebt now sender pendingDebtId s =
     (let pending = pendingDebts s pendingDebtId in
      require (exists pending) ''Pending debt does not exist''
        (require (sender = debtor pending) ''Only the debtor can confirm the debt''
           (and_then
              (addDebt now (token pending) (debtor pending) (creditor pending)
                 (amount pending) (memo pending) s)
              (\<lambda>s1. Inr (emit (DebtConfirmed pendingDebtId)
                            (s1\<lparr>pendingDebts := (pendingDebts s1)(pendingDebtId := no_pending)\<rparr>))))))"

definition rejectDebt :: "address \<Rightarrow> uint256 \<Rightarrow> contract \<Rightarrow> error + contract" where
  "rejectDebt sender pendingDebtId s =
     (let pending = pendingDebts s pendingDebtId in
      require (exists pending) ''Pending debt does not exist''
        (require (sender = debtor pending \<or> sender = creditor pending)
           ''Only debtor or creditor can reject''
           (Inr (emit (DebtRejected pendingDebtId)
                   (s\<lparr>pendingDebts := (pendingDebts s)(pendingDebtId := no_pending)\<rparr>)))))"

text \<open>
  \<open>settleDebt\<close> calls \<open>transferFrom\<close> of the token contract, which is not part of this
  contract. The call is a parameter: given the token, the payer, the payee, the amount and
  the state of this contract at the moment of the call, it either reverts (\<open>None\<close>) or
  returns the boolean of the ERC20 interface together with the state of this contract
  as the calls made back into it during the transfer have left it. The returned boolean is
  dropped, as in the source.
\<close>

type_synonym transfer =
  "address \<Rightarrow> address \<Rightarrow> address \<Rightarrow> uint256 \<Rightarrow> contract \<Rightarrow> (bool \<times> contract) option"

definition settleDebt :: "transfer \<Rightarrow> address \<Rightarrow> address \<Rightarrow> address \<Rightarrow> contract \<Rightarrow> error + contract" where
  "settleDebt transferFrom sender tok crd s =
     (let amountOwed = debts s tok sender crd in
      require (0 < amountOwed) ''No debt to settle''
        (let s1 = set_debt tok sender crd 0 s in
         case transferFrom tok sender crd amountOwed s1 of
           None \<Rightarrow> Inl ExternalRevert
         | Some (returned, s2) \<Rightarrow> Inr (emit (DebtSettled sender crd tok amountOwed) s2)))"

definition registerUser :: "string \<Rightarrow> address \<Rightarrow> contract \<Rightarrow> error + contract" where
  "registerUser discordId walletAddress s =
     require (0 < length discordId) ''Discord ID cannot be empty''
       (require (walletAddress \<noteq> 0) ''Wallet address cannot be zero''
          (require (discordToWallet s discordId = 0) ''Discord ID already registered''
             (require (length (walletToDiscord s walletAddress) = 0) ''Wallet already registered''
                (Inr (emit (UserRegistered discordId walletAddress)
                        (s\<lparr>discordToWallet := (discordToWallet s)(discordId := walletAddress),
                           walletToDiscord := (walletToDiscord s)(walletAddress := discordId)\<rparr>))))))"

section \<open>Calls, transactions and histories\<close>

text \<open>
  A call to a public function, with its \<open>msg.sender\<close> first. A \<open>SettleDebt\<close> call carries
  what the token does when asked to transfer: the calls it makes back into this contract
  before it returns (each one takes effect if it succeeds and is undone if it fails), and
  whether it finally reverts (\<open>None\<close>) or returns a boolean.
\<close>

datatype call =
    ProposeDebt address address address uint256 string
  | ConfirmDebt address uint256
  | RejectDebt address uint256
  | SettleDebt address address address "call list" "bool option"
  | RegisterUser address string address

fun exec :: "uint256 \<Rightarrow> call \<Rightarrow> contract \<Rightarrow> error + contract" where
  "exec now (ProposeDebt sender tok dbt amt mem) s = proposeDebt sender tok dbt amt mem s"
| "exec now (ConfirmDebt sender pid) s = confirmDebt now sender pid s"
| "exec now (RejectDebt sender pid) s = rejectDebt sender pid s"
| "exec now (SettleDebt sender tok crd reentrant outcome) s =
     settleDebt
       (\<lambda>_ _ _ _ s1. map_option
          (\<lambda>b. (b, fold (\<lambda>c st. case exec now c st of Inl _ \<Rightarrow> st | Inr st' \<Rightarrow> st') reentrant s1))
          outcome)
       sender tok crd s"
| "exec now (RegisterUser sender discordId walletAddress) s = registerUser discordId walletAddress s"

text \<open>A transaction commits the new state or, on a revert, leaves the old one.\<close>

definition transact :: "uint256 \<Rightarrow> call \<Rightarrow> contract \<Rightarrow> contract" where
  "transact now c s = (case exec now c s of Inl _ \<Rightarrow> s | Inr s' \<Rightarrow> s')"

text \<open>A history: transactions with the timestamp of their block, run in order.\<close>

definition run :: "(uint256 \<times> call) list \<Rightarrow> contract \<Rightarrow> contract" where
  "run txs s = fold (\<lambda>(now, c). transact now c) txs s"

section \<open>Sequences of netting calls between one pair\<close>

text \<open>
  A debt applied between the fixed accounts A and B on a fixed token: its direction, the
  amount, the memo and the timestamp of its block. \<open>applyDebts\<close> applies a list of them in
  order and stops at the first call that fails.
\<close>

datatype direction = AOwesB | BOwesA

fun applyDebts ::
  "address \<Rightarrow> address \<Rightarrow> address \<Rightarrow> (direction \<times> uint256 \<times> string \<times> uint256) list \<Rightarrow> contract
   \<Rightarrow> error + contract" where
  "applyDebts tok A B [] s = Inr s"
| "applyDebts tok A B ((AOwesB, amt, mem, now) # cs) s =
     and_then (addDebt now tok A B amt mem s) (applyDebts tok A B cs)"
| "applyDebts tok A B ((BOwesA, amt, mem, now) # cs) s =
     and_then (addDebt now tok B A amt mem s) (applyDebts tok A B cs)"

fun signed_sum :: "(direction \<times> uint256 \<times> string \<times> uint256) list \<Rightarrow> int" where
  "signed_sum [] = 0"
| "signed_sum ((AOwesB, amt, mem, now) # cs) = int (unat amt) + signed_sum cs"
| "signed_sum ((BOwesA, amt, mem, now) # cs) = - int (unat amt) + signed_sum cs"

section \<open>Resolutions of a proposal\<close>

text \<open>
  The number of \<open>DebtConfirmed\<close> and \<open>DebtRejected\<close> events recorded for a proposal id, and
  the invariant that ties it to the pending store: an id is resolved at most once, an open
  entry has no resolution yet, and ids above the counter have neither an entry nor a
  resolution.
\<close>

definition resolutions :: "uint256 \<Rightarrow> event list \<Rightarrow> nat" where
  "resolutions pid evs = length (filter (\<lambda>e. e = DebtConfirmed pid \<or> e = DebtRejected pid) evs)"

definition proposal_inv :: "contract \<Rightarrow> bool" where
  "proposal_inv s \<longleftrightarrow>
     (\<forall>pid. resolutions pid (events s) \<le> 1 \<and>
            (exists (pendingDebts s pid) \<longrightarrow> resolutions pid (events s) = 0) \<and>
            (pendingDebtCounter s < pid \<longrightarrow>
               resolutions pid (events s) = 0 \<and> \<not> exists (pendingDebts s pid)))"

section \<open>The registry of users\<close>

text \<open>
  On the registered part the two registry mappings are inverse to each other; and
  \<open>registered_in s t\<close> says that every registration of \<open>s\<close> is still there, unchanged, in \<open>t\<close>.
\<close>

definition registry_inv :: "contract \<Rightarrow> bool" where
  "registry_inv s \<longleftrightarrow>
     (\<forall>d w. (discordToWallet s d = w \<and> w \<noteq> 0 \<longrightarrow> walletToDiscord s w = d \<and> d \<noteq> []) \<and>
            (walletToDiscord s w = d \<and> d \<noteq> [] \<longrightarrow> discordToWallet s d = w \<and> w \<noteq> 0))"

definition registered_in :: "contract \<Rightarrow> contract \<Rightarrow> bool" where
  "registered_in s t \<longleftrightarrow>
     (\<forall>d. discordToWallet s d \<noteq> 0 \<longrightarrow> discordToWallet t d = discordToWallet s d) \<and>
     (\<forall>w. walletToDiscord s w \<noteq> [] \<longrightarrow> walletToDiscord t w = walletToDiscord s w)"

section \<open>The balance command of the bot\<close>

text \<open>
  The bot answers \<open>>balance @user token\<close> from the contract's public getter \<open>debts\<close> and from
  its event log; \<open>user1\<close> is the wallet of the author of the message, \<open>user2\<close> the wallet of
  the mentioned user. \<open>isDebtResolved\<close> queries the log for a \<open>DebtConfirmed\<close> or
  \<open>DebtRejected\<close> event of the id (the id goes through a JavaScript number, which is exact
  below \<open>2^53\<close>). The reply has four lines, the fields of \<open>balanceMessage\<close>: the confirmed
  figures are \<open>uint256\<close> values, the pending ones sums of unbounded integers.
\<close>

definition isDebtResolved :: "contract \<Rightarrow> uint256 \<Rightarrow> bool" where
  "isDebtResolved s pendingDebtId \<longleftrightarrow>
     (let confirmedEvents = filter (\<lambda>e. e = DebtConfirmed pendingDebtId) (events s);
          rejectedEvents = filter (\<lambda>e. e = DebtRejected pendingDebtId) (events s)
      in 0 < length confirmedEvents \<or> 0 < length rejectedEvents)"

fun isDebtProposed :: "event \<Rightarrow> bool" where
  "isDebtProposed (DebtProposed pid c d t a m) = True"
| "isDebtProposed _ = False"

fun relevant :: "address \<Rightarrow> address \<Rightarrow> address \<Rightarrow> event \<Rightarrow> bool" where
  "relevant tok user1 user2 (DebtProposed pid c d t a m) =
     (let userMatch = (c = user1 \<and> d = user2) \<or> (c = user2 \<and> d = user1);
          tokenMatch = (t = tok)
      in userMatch \<and> tokenMatch)"
| "relevant tok user1 user2 _ = False"

fun unresolved :: "contract \<Rightarrow> event \<Rightarrow> bool" where
  "unresolved s (DebtProposed pid c d t a m) = (\<not> isDebtResolved s pid)"
| "unresolved s _ = False"

fun addPending :: "address \<Rightarrow> address \<Rightarrow> event \<Rightarrow> nat \<times> nat \<Rightarrow> nat \<times> nat" where
  "addPending user1 user2 (DebtProposed pid c d t a m) (pendingOwed, pendingOwing) =
     (if d = user1 \<and> c = user2 then (pendingOwed + unat a, pendingOwing)
      else if d = user2 \<and> c = user1 then (pendingOwed, pendingOwing + unat a)
      else (pendingOwed, pendingOwing))"
| "addPending user1 user2 _ acc = acc"

record balanceMessage =
  youOweThem :: uint256
  theyOweYou :: uint256
  youOweThemPending :: nat
  theyOweYouPending :: nat

definition balance :: "contract \<Rightarrow> address \<Rightarrow> address \<Rightarrow> address \<Rightarrow> balanceMessage" where
  "balance s tok user1 user2 =
     (let debtOwed = debts s tok user1 user2;
          debtOwing = debts s tok user2 user1;
          allDebtProposedEvents = filter isDebtProposed (events s);
          relevantEvents = filter (relevant tok user1 user2) allDebtProposedEvents;
          pendingDebtEvents = filter (unresolved s) relevantEvents;
          pending = fold (addPending user1 user2) pendingDebtEvents (0, 0);
          pendingOwed = fst pending;
          pendingOwing = snd pending
      in \<lparr>youOweThem = debtOwing, theyOweYou = debtOwed,
          youOweThemPending = pendingOwing, theyOweYouPending = pendingOwed\<rparr>)"

text \<open>
  The replay of the log as the specification words it: the log is folded from its
  beginning, a \<open>DebtProposed\<close> event opens a proposal and a \<open>DebtConfirmed\<close> or \<open>DebtRejected\<close>
  event closes the proposal of its id; \<open>pending_total\<close> adds up the amounts of the open
  proposals of one token from one debtor to one creditor.
\<close>

fun proposalId :: "event \<Rightarrow> uint256 option" where
  "proposalId (DebtProposed pid c d t a m) = Some pid"
| "proposalId _ = None"

fun replay_step :: "event list \<Rightarrow> event \<Rightarrow> event list" where
  "replay_step opened (DebtProposed pid c d t a m) = opened @ [DebtProposed pid c d t a m]"
| "replay_step opened (DebtConfirmed pid) = filter (\<lambda>e. proposalId e \<noteq> Some pid) opened"
| "replay_step opened (DebtRejected pid) = filter (\<lambda>e. proposalId e \<noteq> Some pid) opened"
| "replay_step opened _ = opened"

definition replay :: "event list \<Rightarrow> event list" where
  "replay evs = foldl replay_step [] evs"

fun contribution :: "address \<Rightarrow> address \<Rightarrow> address \<Rightarrow> event \<Rightarrow> nat" where
  "contribution tok dbt crd (DebtProposed pid c d t a m) =
     (if d = dbt \<and> c = crd \<and> t = tok then unat a else 0)"
| "contribution tok dbt crd _ = 0"

definition pending_total :: "address \<Rightarrow> address \<Rightarrow> address \<Rightarrow> event list \<Rightarrow> nat" where
  "pending_total tok dbt crd opened = sum_list (map (contribution tok dbt crd) opened)"

fun fresh_ids :: "event list \<Rightarrow> bool" where
  "fresh_ids [] = True"
| "fresh_ids (DebtProposed pid c d t a m # older) = (resolutions pid older = 0 \<and> fresh_ids older)"
| "fresh_ids (e # older) = fresh_ids older"

definition log_inv :: "contract \<Rightarrow> bool" where
  "log_inv s \<longleftrightarrow> proposal_inv s \<and> fresh_ids (rev (events s))"

definition still_open :: "event list \<Rightarrow> event \<Rightarrow> bool" where
  "still_open evs e = (case proposalId e of Some pid \<Rightarrow> resolutions pid evs = 0 | None \<Rightarrow> False)"

section \<open>Concrete states used in the examples\<close>

text \<open>The deployed contract after account 2 proposed a debt of 50 units of token 0 to account 1.\<close>

definition one_proposal :: contract where
  "one_proposal = run [(0, ProposeDebt 2 0 1 50 ''dinner'')] init"

text \<open>The state \<open>one_proposal\<close> after the creditor, account 2, rejected proposal 1.\<close>

definition one_rejected :: contract where
  "one_rejected = transact 1 (RejectDebt 2 1) one_proposal"

text \<open>The deployed contract after the id \<open>alice\<close> was registered with wallet 5.\<close>

definition one_registered :: contract where
  "one_registered = run [(0, RegisterUser 9 ''alice'' 5)] init"

text \<open>
  The deployed contract after account 2 proposed, and account 1 confirmed, a debt of 50
  units of token 7: debtor 1 owes creditor 2 the amount 50. In \<open>debt_and_proposal\<close> account 2
  has proposed a further debt of 5 to account 1, which is still open.
\<close>

definition one_debt :: contract where
  "one_debt = run [(0, ProposeDebt 2 7 1 50 ''dinner''), (3, ConfirmDebt 1 1)] init"

definition debt_and_proposal :: contract where
  "debt_and_proposal = run [(4, ProposeDebt 2 7 1 5 ''tip'')] one_debt"

text \<open>
  The ledger after account 2 proposed, and account 1 confirmed, a debt of \<open>2^256 - 1\<close>
  units of token 0: the entry of debtor 1 towards creditor 2 is at its maximum.
\<close>

definition full_entry :: contract where
  "full_entry = run [(0, ProposeDebt 2 0 1 (- 1) []), (0, ConfirmDebt 1 1)] init"

section \<open>Basic facts about the state\<close>

lemma set_debt_same: "debts s tok d c = v \<Longrightarrow> set_debt tok d c v s = s"
  by (auto simp: set_debt_def)

lemma set_debt_fields [simp]:
  "debtActionCounter (set_debt tok d c v s) = debtActionCounter s"
  "discordToWallet (set_debt tok d c v s) = discordToWallet s"
  "walletToDiscord (set_debt tok d c v s) = walletToDiscord s"
  "pendingDebts (set_debt tok d c v s) = pendingDebts s"
  "pendingDebtCounter (set_debt tok d c v s) = pendingDebtCounter s"
  "events (set_debt tok d c v s) = events s"
  by (simp_all add: set_debt_def)

lemma emit_fields [simp]:
  "debts (emit e s) = debts s"
  "debtActionCounter (emit e s) = debtActionCounter s"
  "discordToWallet (emit e s) = discordToWallet s"
  "walletToDiscord (emit e s) = walletToDiscord s"
  "pendingDebts (emit e s) = pendingDebts s"
  "pendingDebtCounter (emit e s) = pendingDebtCounter s"
  "events (emit e s) = events s @ [e]"
  by (simp_all add: emit_def)

lemma addDebt_le:
  assumes "dbt \<noteq> crd" "0 < amt" "amt \<le> debts s tok crd dbt"
  shows "addDebt now tok dbt crd amt mem s =
     (if unat (debtActionCounter s) + 1 < 2 ^ 256 then
       Inr (emit (DebtAdded (debtActionCounter s + 1) dbt crd tok amt mem now)
           ((set_debt tok crd dbt (debts s tok crd dbt - amt) s)\<lparr>debtActionCounter := debtActionCounter s + 1\<rparr>))
      else Inl Panic)"
  using assms
  by (simp add: addDebt_def require_def and_then_def checked_add_def checked_sub_def emit_def set_debt_def Let_def)

lemma addDebt_gt:
  assumes "dbt \<noteq> crd" "0 < amt" "debts s tok crd dbt < amt"
  shows "addDebt now tok dbt crd amt mem s =
     (if unat (debts s tok dbt crd) + unat (amt - debts s tok crd dbt) < 2 ^ 256 \<and>
         unat (debtActionCounter s) + 1 < 2 ^ 256 then
       Inr (emit (DebtAdded (debtActionCounter s + 1) dbt crd tok amt mem now)
           ((set_debt tok dbt crd (debts s tok dbt crd + (amt - debts s tok crd dbt))
              (set_debt tok crd dbt 0 s))\<lparr>debtActionCounter := debtActionCounter s + 1\<rparr>))
      else Inl Panic)"
proof -
  have ord: "\<not> amt \<le> debts s tok crd dbt" "debts s tok crd dbt \<le> amt"
    using assms(3) by auto
  show ?thesis
  proof (cases "0 < debts s tok crd dbt")
    case True
    with assms ord show ?thesis
      by (simp add: addDebt_def require_def and_then_def checked_add_def checked_sub_def emit_def Let_def)
        (simp add: set_debt_def)
  next
    case False
    then have "debts s tok crd dbt = 0" by (simp add: word_greater_zero_iff)
    then have "set_debt tok crd dbt 0 s = s" by (simp add: set_debt_same)
    with assms False ord show ?thesis
      by (simp add: addDebt_def require_def and_then_def checked_add_def checked_sub_def emit_def Let_def)
  qed
qed

lemma debts_set_debt:
  "debts (set_debt tok d c v s) t x y = (if t = tok \<and> x = d \<and> y = c then v else debts s t x y)"
  by (simp add: set_debt_def)

lemma unat_max_uint256:
  "unat (- 1 :: uint256) = 115792089237316195423570985008687907853269984665640564039457584007913129639935"
  by (simp add: unsigned_minus_1_eq_mask mask_eq_exp_minus_1)

lemma max_uint256_pos: "(0 :: uint256) < - 1"
  by (simp add: word_greater_zero_iff)

lemma full_entry_eq:
  "full_entry = emit (DebtConfirmed 1) (emit (DebtAdded 1 1 2 0 (- 1) [] 0)
     (emit (DebtProposed 1 2 1 0 (- 1) []) init)\<lparr>debts := (\<lambda>_ _ _. 0)(0 := (\<lambda>_ _. 0)(1 := (\<lambda>_. 0)(2 := - 1))),
        debtActionCounter := 1, pendingDebtCounter := 1\<rparr>)"
  by (simp add: full_entry_def run_def transact_def proposeDebt_def confirmDebt_def addDebt_def
      require_def and_then_def checked_add_def checked_sub_def emit_def set_debt_def Let_def
      init_def no_pending_def unat_max_uint256 max_uint256_pos fun_eq_iff)

section \<open>The netting engine\<close>

text \<open>
  C1, as stated, fails: the claim promises the netting effect for every call with
  \<open>debtor \<noteq> creditor\<close> and \<open>amount > 0\<close>, but the addition to the debtor's entry and the
  increment of the action counter are checked. In \<open>full_entry\<close>, reached from the deployed
  contract by one proposal and its confirmation, debtor 1 owes creditor 2 the maximal amount
  and nothing is owed back; adding a debt of 1 in the same direction reverts, so no entry
  is increased.
\<close>

theorem addDebt_netting_counterexample:
  "(1 :: address) \<noteq> 2 \<and> (0 :: uint256) < 1 \<and>
   debts full_entry 0 2 1 = 0 \<and> debts full_entry 0 1 2 = - 1 \<and>
   addDebt 0 0 1 2 1 [] full_entry = Inl Panic"
  by (simp add: full_entry_eq addDebt_def require_def and_then_def checked_add_def checked_sub_def
        emit_def set_debt_def Let_def init_def no_pending_def unat_max_uint256)

text \<open>
  C1 (amended): for every call of \<open>addDebt\<close> with \<open>debtor \<noteq> creditor\<close> and \<open>amount > 0\<close>,
  with \<open>opposite\<close> the entry of the creditor towards the debtor before the call: if neither
  the action counter nor (when \<open>opposite < amount\<close>) the debtor's entry would exceed
  \<open>2^256 - 1\<close>, the call succeeds; when \<open>opposite \<ge> amount\<close> it sets the opposite entry to
  \<open>opposite - amount\<close> and leaves the debtor's entry unchanged, otherwise it sets the opposite
  entry to 0 and increases the debtor's entry by \<open>amount - opposite\<close>; the \<open>DebtAdded\<close> event
  it appends carries the debtor, creditor and gross amount as given. If one of the two
  would overflow, the call fails with an arithmetic panic. From the deployed contract, A owes
  B 100, then B owes A 20, then A owes B 80, then B owes A 200 gives the entries
  (100, 0), (80, 0), (160, 0) and finally (0, 40) for (A to B, B to A).
\<close>

theorem addDebt_netting:
  assumes "dbt \<noteq> crd" and "0 < amt"
  shows
    "(if unat (debtActionCounter s) + 1 < 2 ^ 256 \<and>
         (amt \<le> debts s tok crd dbt \<or>
          unat (debts s tok dbt crd) + unat (amt - debts s tok crd dbt) < 2 ^ 256)
      then \<exists>s'. addDebt now tok dbt crd amt mem s = Inr s' \<and>
             (if amt \<le> debts s tok crd dbt
              then debts s' tok crd dbt = debts s tok crd dbt - amt \<and>
                   debts s' tok dbt crd = debts s tok dbt crd
              else debts s' tok crd dbt = 0 \<and>
                   debts s' tok dbt crd = debts s tok dbt crd + (amt - debts s tok crd dbt) \<and>
                   unat (debts s' tok dbt crd) =
                     unat (debts s tok dbt crd) + (unat amt - unat (debts s tok crd dbt))) \<and>
             events s' = events s @ [DebtAdded (debtActionCounter s + 1) dbt crd tok amt mem now]
      else addDebt now tok dbt crd amt mem s = Inl Panic) \<and>
     (\<exists>s1 s2 s3 s4.
        addDebt n1 tok dbt crd 100 m1 init = Inr s1 \<and>
        debts s1 tok dbt crd = 100 \<and> debts s1 tok crd dbt = 0 \<and>
        addDebt n2 tok crd dbt 20 m2 s1 = Inr s2 \<and>
        debts s2 tok crd dbt = 0 \<and> debts s2 tok dbt crd = 80 \<and>
        addDebt n3 tok dbt crd 80 m3 s2 = Inr s3 \<and>
        debts s3 tok dbt crd = 160 \<and> debts s3 tok crd dbt = 0 \<and>
        addDebt n4 tok crd dbt 200 m4 s3 = Inr s4 \<and>
        debts s4 tok dbt crd = 0 \<and> debts s4 tok crd dbt = 40)"
proof (rule conjI)
  let ?opp = "debts s tok crd dbt"
  show "if unat (debtActionCounter s) + 1 < 2 ^ 256 \<and>
         (amt \<le> ?opp \<or> unat (debts s tok dbt crd) + unat (amt - ?opp) < 2 ^ 256)
      then \<exists>s'. addDebt now tok dbt crd amt mem s = Inr s' \<and>
             (if amt \<le> ?opp
              then debts s' tok crd dbt = ?opp - amt \<and> debts s' tok dbt crd = debts s tok dbt crd
              else debts s' tok crd dbt = 0 \<and>
                   debts s' tok dbt crd = debts s tok dbt crd + (amt - ?opp) \<and>
                   unat (debts s' tok dbt crd) =
                     unat (debts s tok dbt crd) + (unat amt - unat ?opp)) \<and>
             events s' = events s @ [DebtAdded (debtActionCounter s + 1) dbt crd tok amt mem now]
      else addDebt now tok dbt crd amt mem s = Inl Panic"
  proof (cases "amt \<le> ?opp")
    case True
    with assms show ?thesis
      by (simp add: addDebt_le debts_set_debt)
  next
    case False
    then have lt: "?opp < amt" by simp
    then have le: "?opp \<le> amt" by simp
    have sub: "unat (amt - ?opp) = unat amt - unat ?opp"
      using le by (rule unat_sub)
    show ?thesis
    proof (cases "unat (debts s tok dbt crd) + unat (amt - ?opp) < 2 ^ 256")
      case fit: True
      then have "unat (debts s tok dbt crd + (amt - ?opp)) =
                 unat (debts s tok dbt crd) + unat (amt - ?opp)"
        by (simp add: unat_add_lem [THEN iffD1])
      with assms False lt fit sub show ?thesis
        by (simp add: addDebt_gt debts_set_debt)
    next
      case nofit: False
      with assms False lt show ?thesis
        by (simp add: addDebt_gt)
    qed
  qed
next
  from assms(1) show "\<exists>s1 s2 s3 s4.
        addDebt n1 tok dbt crd 100 m1 init = Inr s1 \<and>
        debts s1 tok dbt crd = 100 \<and> debts s1 tok crd dbt = 0 \<and>
        addDebt n2 tok crd dbt 20 m2 s1 = Inr s2 \<and>
        debts s2 tok crd dbt = 0 \<and> debts s2 tok dbt crd = 80 \<and>
        addDebt n3 tok dbt crd 80 m3 s2 = Inr s3 \<and>
        debts s3 tok dbt crd = 160 \<and> debts s3 tok crd dbt = 0 \<and>
        addDebt n4 tok crd dbt 200 m4 s3 = Inr s4 \<and>
        debts s4 tok dbt crd = 0 \<and> debts s4 tok crd dbt = 40"
    by (simp add: addDebt_def require_def and_then_def checked_add_def checked_sub_def
        emit_def set_debt_def Let_def init_def)
qed

theorem addDebt_netting_witness:
  "(\<exists>s'. addDebt 7 0 1 2 30 ''lunch'' (set_debt 0 2 1 100 init) = Inr s' \<and> debts s' 0 2 1 = 70 \<and> debts s' 0 1 2 = 0) \<and>
   (\<exists>s'. addDebt 7 0 1 2 30 ''lunch'' (set_debt 0 2 1 10 init) = Inr s' \<and> debts s' 0 2 1 = 0 \<and> debts s' 0 1 2 = 20) \<and>
   addDebt 7 0 1 2 30 ''lunch'' (set_debt 0 1 2 (- 1) init) = Inl Panic"
  using addDebt_netting [of 1 2 30 "set_debt 0 2 1 100 init" 0 7 "''lunch''"]
    addDebt_netting [of 1 2 30 "set_debt 0 2 1 10 init" 0 7 "''lunch''"]
    addDebt_netting [of 1 2 30 "set_debt 0 1 2 (- 1) init" 0 7 "''lunch''"]
  by (simp add: debts_set_debt init_def unat_max_uint256) blast

section \<open>Netting conservation\<close>

lemma addDebt_Inr_pre:
  assumes "addDebt now tok dbt crd amt mem s = Inr s'"
  shows "dbt \<noteq> crd" and "0 < amt"
  using assms by (auto simp: addDebt_def require_def split: if_splits)

lemma uint_checked_add:
  fixes a b :: uint256
  assumes "unat a + unat b < 2 ^ 256"
  shows "uint (a + b) = uint a + uint b"
proof -
  have "unat (a + b) = unat a + unat b"
    using assms by (simp add: unat_add_lem [THEN iffD1])
  then show ?thesis
    by (metis uint_nat of_nat_add)
qed

lemma uint_checked_sub:
  fixes a b :: uint256
  assumes "b \<le> a"
  shows "uint (a - b) = uint a - uint b"
  using assms by (simp add: uint_sub_lem [THEN iffD1] word_le_def)

lemma addDebt_net:
  assumes ok: "addDebt now tok dbt crd amt mem s = Inr s'"
    and net: "debts s tok dbt crd = 0 \<or> debts s tok crd dbt = 0"
  shows "(debts s' tok dbt crd = 0 \<or> debts s' tok crd dbt = 0) \<and>
         uint (debts s' tok dbt crd) - uint (debts s' tok crd dbt) =
         uint (debts s tok dbt crd) - uint (debts s tok crd dbt) + uint amt"
proof -
  let ?opp = "debts s tok crd dbt"
  note pre = addDebt_Inr_pre [OF ok]
  show ?thesis
  proof (cases "amt \<le> ?opp")
    case True
    with pre have "?opp \<noteq> 0" by auto
    with net have z: "debts s tok dbt crd = 0" by simp
    from True have "uint (?opp - amt) = uint ?opp - uint amt" by (rule uint_checked_sub)
    then show ?thesis
      using ok pre True z by (auto simp: addDebt_le debts_set_debt split: if_splits)
  next
    case False
    then have lt: "?opp < amt" by simp
    then have le: "?opp \<le> amt" by simp
    have sub: "uint (amt - ?opp) = uint amt - uint ?opp" using le by (rule uint_checked_sub)
    have fit: "unat (debts s tok dbt crd) + unat (amt - ?opp) < 2 ^ 256"
      using ok pre lt by (auto simp: addDebt_gt split: if_splits)
    then have "uint (debts s tok dbt crd + (amt - ?opp)) =
               uint (debts s tok dbt crd) + uint (amt - ?opp)"
      by (rule uint_checked_add)
    then show ?thesis
      using ok pre lt sub by (auto simp: addDebt_gt debts_set_debt split: if_splits)
  qed
qed

lemma applyDebts_net:
  assumes "applyDebts tok A B calls s = Inr s'"
    and "debts s tok A B = 0 \<or> debts s tok B A = 0"
  shows "(debts s' tok A B = 0 \<or> debts s' tok B A = 0) \<and>
         uint (debts s' tok A B) - uint (debts s' tok B A) =
         uint (debts s tok A B) - uint (debts s tok B A) + signed_sum calls"
  using assms
proof (induction tok A B calls s rule: applyDebts.induct)
  case (1 tok A B s)
  then show ?case by simp
next
  case (2 tok A B amt mem now cs s)
  from "2.prems"(1) obtain s1 where s1: "addDebt now tok A B amt mem s = Inr s1"
    and rest: "applyDebts tok A B cs s1 = Inr s'"
    by (auto simp: and_then_def split: sum.splits)
  from addDebt_net [OF s1 "2.prems"(2)] "2.IH" [OF rest] show ?case by auto
next
  case (3 tok A B amt mem now cs s)
  from "3.prems"(1) obtain s1 where s1: "addDebt now tok B A amt mem s = Inr s1"
    and rest: "applyDebts tok A B cs s1 = Inr s'"
    by (auto simp: and_then_def split: sum.splits)
  from "3.prems"(2) have "debts s tok B A = 0 \<or> debts s tok A B = 0" by auto
  from addDebt_net [OF s1 this] "3.IH" [OF rest] show ?case by auto
qed

lemma applyDebts_take:
  assumes "applyDebts tok A B calls s = Inr s'"
  shows "\<exists>sn. applyDebts tok A B (take n calls) s = Inr sn"
  using assms
proof (induction tok A B calls s arbitrary: n rule: applyDebts.induct)
  case (1 tok A B s)
  then show ?case by simp
next
  case (2 tok A B amt mem now cs s)
  then show ?case
    by (cases n) (auto simp: and_then_def split: sum.splits)
next
  case (3 tok A B amt mem now cs s)
  then show ?case
    by (cases n) (auto simp: and_then_def split: sum.splits)
qed

text \<open>
  C2: for a fixed token and pair (A, B), starting from a state in which both entries of the
  pair are zero (the deployed contract in particular), along every sequence of successful
  \<open>addDebt\<close> calls between them, after each call at most one of the two entries is non-zero
  and entry(A,B) - entry(B,A) is the signed sum of the amounts applied so far, A-owes-B
  counted positive and B-owes-A negative.
\<close>

theorem netting_conservation:
  assumes "debts s tok A B = 0" and "debts s tok B A = 0"
    and "applyDebts tok A B calls s = Inr s'"
  shows "\<forall>n \<le> length calls. \<exists>sn.
           applyDebts tok A B (take n calls) s = Inr sn \<and>
           (debts sn tok A B = 0 \<or> debts sn tok B A = 0) \<and>
           uint (debts sn tok A B) - uint (debts sn tok B A) = signed_sum (take n calls)"
proof (intro allI impI)
  fix n
  from applyDebts_take [OF assms(3)] obtain sn
    where sn: "applyDebts tok A B (take n calls) s = Inr sn" by blast
  from applyDebts_net [OF sn] assms(1,2)
  show "\<exists>sn. applyDebts tok A B (take n calls) s = Inr sn \<and>
           (debts sn tok A B = 0 \<or> debts sn tok B A = 0) \<and>
           uint (debts sn tok A B) - uint (debts sn tok B A) = signed_sum (take n calls)"
    using sn by simp
qed

theorem netting_conservation_witness:
  "(\<exists>s'. applyDebts 0 1 2
           [(AOwesB, 100, ''rent'', 5), (BOwesA, 130, ''food'', 6), (AOwesB, 7, ''bus'', 8)] init = Inr s') \<and>
   (\<exists>sn. applyDebts 0 1 2
           (take 2 [(AOwesB, 100, ''rent'', 5), (BOwesA, 130, ''food'', 6), (AOwesB, 7, ''bus'', 8)])
           init = Inr sn \<and>
         debts sn 0 1 2 = 0 \<and> debts sn 0 2 1 = 30 \<and>
         uint (debts sn 0 1 2) - uint (debts sn 0 2 1) = - 30)"
  using netting_conservation [of init 0 1 2
      "[(AOwesB, 100, ''rent'', 5), (BOwesA, 130, ''food'', 6), (AOwesB, 7, ''bus'', 8)]",
      THEN spec, of _ 2]
  by (simp add: init_def addDebt_def require_def and_then_def checked_add_def checked_sub_def
      emit_def set_debt_def Let_def)

section \<open>Calls as state transitions\<close>

text \<open>
  The settlement call in closed form, an induction rule for properties that every
  successful call preserves (the calls a token makes during a transfer included), and
  what a successful call of each function looks like.
\<close>

lemma transact_fold_eq:
  "fold (\<lambda>c st. case exec now c st of Inl _ \<Rightarrow> st | Inr st' \<Rightarrow> st') calls s = fold (transact now) calls s"
  by (simp add: transact_def [abs_def])

lemma exec_SettleDebt:
  "exec now (SettleDebt sender tok crd reentrant outcome) s =
     (if debts s tok sender crd = 0 then Inl (Require ''No debt to settle'')
      else case outcome of
             None \<Rightarrow> Inl ExternalRevert
           | Some b \<Rightarrow> Inr (emit (DebtSettled sender crd tok (debts s tok sender crd))
                             (fold (transact now) reentrant (set_debt tok sender crd 0 s))))"
  by (simp add: settleDebt_def require_def Let_def transact_fold_eq word_greater_zero_iff
      split: option.splits)

declare exec.simps(4) [simp del]

lemma fold_invariant:
  assumes "P s" and "\<And>c st. c \<in> set calls \<Longrightarrow> P st \<Longrightarrow> P (f c st)"
  shows "P (fold f calls s)"
  using assms by (induction calls arbitrary: s) auto

lemma exec_invariant:
  assumes step:
    "\<And>sender tok dbt amt mem s s'. P s \<Longrightarrow> proposeDebt sender tok dbt amt mem s = Inr s' \<Longrightarrow> P s'"
    "\<And>now sender pid s s'. P s \<Longrightarrow> confirmDebt now sender pid s = Inr s' \<Longrightarrow> P s'"
    "\<And>sender pid s s'. P s \<Longrightarrow> rejectDebt sender pid s = Inr s' \<Longrightarrow> P s'"
    "\<And>discordId w s s'. P s \<Longrightarrow> registerUser discordId w s = Inr s' \<Longrightarrow> P s'"
    "\<And>tok d c s. P s \<Longrightarrow> P (set_debt tok d c 0 s)"
    "\<And>d c tok a s. P s \<Longrightarrow> P (emit (DebtSettled d c tok a) s)"
  shows "P s \<Longrightarrow> exec now c s = Inr s' \<Longrightarrow> P s'"
proof (induction now c s arbitrary: s' rule: exec.induct)
  case (1 now sender tok dbt amt mem s)
  then show ?case using step(1) by simp
next
  case (2 now sender pid s)
  then show ?case using step(2) by simp
next
  case (3 now sender pid s)
  then show ?case using step(3) by simp
next
  case (4 now sender tok crd reentrant outcome s)
  let ?s1 = "set_debt tok sender crd 0 s"
  from "4.prems"(2) obtain b where ob: "outcome = Some b"
    by (auto simp: exec_SettleDebt split: if_splits option.splits)
  have "P (fold (transact now) reentrant ?s1)"
  proof (rule fold_invariant)
    show "P ?s1" using "4.prems"(1) by (rule step(5))
  next
    fix c st assume c: "c \<in> set reentrant" and st: "P st"
    show "P (transact now c st)"
    proof (cases "exec now c st")
      case (Inl e)
      then show ?thesis using st by (simp add: transact_def)
    next
      case (Inr st')
      have "P st'" using "4.IH" ob c st Inr by blast
      then show ?thesis
        using Inr by (simp add: transact_def)
    qed
  qed
  then show ?case
    using "4.prems"(2) step(6) by (auto simp: exec_SettleDebt split: if_splits option.splits)
next
  case (5 now sender discordId walletAddress s)
  then show ?case using step(4) by simp
qed

lemma transact_invariant:
  assumes
    "\<And>sender tok dbt amt mem s s'. P s \<Longrightarrow> proposeDebt sender tok dbt amt mem s = Inr s' \<Longrightarrow> P s'"
    "\<And>now sender pid s s'. P s \<Longrightarrow> confirmDebt now sender pid s = Inr s' \<Longrightarrow> P s'"
    "\<And>sender pid s s'. P s \<Longrightarrow> rejectDebt sender pid s = Inr s' \<Longrightarrow> P s'"
    "\<And>discordId w s s'. P s \<Longrightarrow> registerUser discordId w s = Inr s' \<Longrightarrow> P s'"
    "\<And>tok d c s. P s \<Longrightarrow> P (set_debt tok d c 0 s)"
    "\<And>d c tok a s. P s \<Longrightarrow> P (emit (DebtSettled d c tok a) s)"
    and "P s"
  shows "P (transact now c s)"
proof (cases "exec now c s")
  case (Inl e)
  then show ?thesis using assms(7) by (simp add: transact_def)
next
  case (Inr s')
  have "P s'"
    by (rule exec_invariant [where P = P, OF assms(1-6) assms(7) Inr])
  then show ?thesis using Inr by (simp add: transact_def)
qed

lemma run_invariant:
  assumes
    "\<And>sender tok dbt amt mem s s'. P s \<Longrightarrow> proposeDebt sender tok dbt amt mem s = Inr s' \<Longrightarrow> P s'"
    "\<And>now sender pid s s'. P s \<Longrightarrow> confirmDebt now sender pid s = Inr s' \<Longrightarrow> P s'"
    "\<And>sender pid s s'. P s \<Longrightarrow> rejectDebt sender pid s = Inr s' \<Longrightarrow> P s'"
    "\<And>discordId w s s'. P s \<Longrightarrow> registerUser discordId w s = Inr s' \<Longrightarrow> P s'"
    "\<And>tok d c s. P s \<Longrightarrow> P (set_debt tok d c 0 s)"
    "\<And>d c tok a s. P s \<Longrightarrow> P (emit (DebtSettled d c tok a) s)"
    and "P s"
  shows "P (run txs s)"
  unfolding run_def
proof (rule fold_invariant [where P = P])
  show "P s" by (rule assms(7))
next
  fix tx st assume st: "P st"
  have "P (transact (fst tx) (snd tx) st)"
    by (rule transact_invariant [where P = P, OF assms(1-6) st])
  then show "P ((case tx of (now, c) \<Rightarrow> transact now c) st)"
    by (simp add: case_prod_beta)
qed

lemma addDebt_frame:
  assumes "addDebt now tok dbt crd amt mem s = Inr s1"
  shows "pendingDebts s1 = pendingDebts s" and "pendingDebtCounter s1 = pendingDebtCounter s"
    and "discordToWallet s1 = discordToWallet s" and "walletToDiscord s1 = walletToDiscord s"
    and "events s1 = events s @ [DebtAdded (debtActionCounter s + 1) dbt crd tok amt mem now]"
    and "debtActionCounter s1 = debtActionCounter s + 1"
proof -
  note pre = addDebt_Inr_pre [OF assms]
  have "pendingDebts s1 = pendingDebts s \<and> pendingDebtCounter s1 = pendingDebtCounter s \<and>
        discordToWallet s1 = discordToWallet s \<and> walletToDiscord s1 = walletToDiscord s \<and>
        events s1 = events s @ [DebtAdded (debtActionCounter s + 1) dbt crd tok amt mem now] \<and>
        debtActionCounter s1 = debtActionCounter s + 1"
  proof (cases "amt \<le> debts s tok crd dbt")
    case True
    with assms pre show ?thesis by (auto simp: addDebt_le split: if_splits)
  next
    case False
    then have "debts s tok crd dbt < amt" by simp
    with assms pre show ?thesis by (auto simp: addDebt_gt split: if_splits)
  qed
  then show "pendingDebts s1 = pendingDebts s" and "pendingDebtCounter s1 = pendingDebtCounter s"
    and "discordToWallet s1 = discordToWallet s" and "walletToDiscord s1 = walletToDiscord s"
    and "events s1 = events s @ [DebtAdded (debtActionCounter s + 1) dbt crd tok amt mem now]"
    and "debtActionCounter s1 = debtActionCounter s + 1"
    by simp_all
qed

lemma proposeDebt_Inr:
  "proposeDebt sender tok dbt amt mem s = Inr s' \<longleftrightarrow>
     dbt \<noteq> sender \<and> unat (pendingDebtCounter s) + 1 < 2 ^ 256 \<and>
     s' = emit (DebtProposed (pendingDebtCounter s + 1) sender dbt tok amt mem)
            (s\<lparr>pendingDebtCounter := pendingDebtCounter s + 1,
               pendingDebts := (pendingDebts s)
                 (pendingDebtCounter s + 1 :=
                    \<lparr>creditor = sender, debtor = dbt, token = tok, amount = amt,
                      memo = mem, exists = True\<rparr>)\<rparr>)"
  by (auto simp: proposeDebt_def require_def and_then_def checked_add_def)

lemma confirmDebt_Inr:
  "confirmDebt now sender pid s = Inr s' \<longleftrightarrow>
     exists (pendingDebts s pid) \<and> sender = debtor (pendingDebts s pid) \<and>
     (\<exists>s1. addDebt now (token (pendingDebts s pid)) (debtor (pendingDebts s pid))
             (creditor (pendingDebts s pid)) (amount (pendingDebts s pid))
             (memo (pendingDebts s pid)) s = Inr s1 \<and>
           s' = emit (DebtConfirmed pid)
                  (s1\<lparr>pendingDebts := (pendingDebts s1)(pid := no_pending)\<rparr>))"
  by (auto simp: confirmDebt_def require_def and_then_def Let_def split: sum.splits)

lemma rejectDebt_Inr:
  "rejectDebt sender pid s = Inr s' \<longleftrightarrow>
     exists (pendingDebts s pid) \<and>
     (sender = debtor (pendingDebts s pid) \<or> sender = creditor (pendingDebts s pid)) \<and>
     s' = emit (DebtRejected pid) (s\<lparr>pendingDebts := (pendingDebts s)(pid := no_pending)\<rparr>)"
  by (auto simp: rejectDebt_def require_def Let_def)

lemma registerUser_Inr:
  "registerUser discordId w s = Inr s' \<longleftrightarrow>
     discordId \<noteq> [] \<and> w \<noteq> 0 \<and> discordToWallet s discordId = 0 \<and> walletToDiscord s w = [] \<and>
     s' = emit (UserRegistered discordId w)
            (s\<lparr>discordToWallet := (discordToWallet s)(discordId := w),
               walletToDiscord := (walletToDiscord s)(w := discordId)\<rparr>)"
  by (auto simp: registerUser_def require_def)

section \<open>The proposal state machine\<close>

lemma one_proposal_eq:
  "one_proposal = emit (DebtProposed 1 2 1 0 50 ''dinner'')
     (init\<lparr>pendingDebtCounter := 1,
           pendingDebts := (\<lambda>_. no_pending)
             (1 := \<lparr>creditor = 2, debtor = 1, token = 0, amount = 50, memo = ''dinner'', exists = True\<rparr>)\<rparr>)"
  by (simp add: one_proposal_def run_def transact_def proposeDebt_def require_def and_then_def
      checked_add_def init_def emit_def)

text \<open>
  C7: for every open proposal and every caller other than its debtor, \<open>confirmDebt\<close> fails
  with the message reserved for unauthorised callers, and the transaction leaves the whole
  state as it was: every ledger entry is unchanged and the proposal is still open.
\<close>

theorem unauthorized_confirm:
  assumes "exists (pendingDebts s pid)" and "c \<noteq> debtor (pendingDebts s pid)"
  shows "confirmDebt now c pid s = Inl (Require ''Only the debtor can confirm the debt'') \<and>
         transact now (ConfirmDebt c pid) s = s"
  using assms by (simp add: confirmDebt_def require_def Let_def transact_def)

theorem unauthorized_confirm_witness:
  "exists (pendingDebts one_proposal 1) \<and> (2 :: address) \<noteq> debtor (pendingDebts one_proposal 1) \<and>
   confirmDebt 9 2 1 one_proposal = Inl (Require ''Only the debtor can confirm the debt'') \<and>
   transact 9 (ConfirmDebt 2 1) one_proposal = one_proposal"
  using unauthorized_confirm [of one_proposal 1 2 9]
  by (simp add: one_proposal_eq init_def)

text \<open>
  C8: \<open>proposeDebt\<close> does not check that the amount is positive. With creditor and debtor
  distinct (and the id counter not exhausted), proposing an amount of 0 succeeds, takes the
  next id and stores an open entry. Confirming that proposal as its debtor fails on the
  netting engine's positivity check and leaves the state, the proposal included, as it was;
  no caller can confirm it; the debtor and the creditor can each reject it, which closes the
  proposal and leaves the ledger as it was before the proposal.
\<close>

theorem deferred_amount_validation:
  assumes "dbt \<noteq> crd" and "unat (pendingDebtCounter s) + 1 < 2 ^ 256"
  shows "\<exists>s1. proposeDebt crd tok dbt 0 mem s = Inr s1 \<and>
           pendingDebtCounter s1 = pendingDebtCounter s + 1 \<and>
           pendingDebts s1 (pendingDebtCounter s1) =
             \<lparr>creditor = crd, debtor = dbt, token = tok, amount = 0, memo = mem, exists = True\<rparr> \<and>
           events s1 = events s @ [DebtProposed (pendingDebtCounter s1) crd dbt tok 0 mem] \<and>
           confirmDebt now dbt (pendingDebtCounter s1) s1 = Inl (Require ''Debt amount must be positive'') \<and>
           transact now (ConfirmDebt dbt (pendingDebtCounter s1)) s1 = s1 \<and>
           (\<forall>c t. \<exists>e. confirmDebt t c (pendingDebtCounter s1) s1 = Inl e) \<and>
           (\<exists>s2. rejectDebt dbt (pendingDebtCounter s1) s1 = Inr s2 \<and>
                 \<not> exists (pendingDebts s2 (pendingDebtCounter s1)) \<and> debts s2 = debts s) \<and>
           (\<exists>s2. rejectDebt crd (pendingDebtCounter s1) s1 = Inr s2 \<and>
                 \<not> exists (pendingDebts s2 (pendingDebtCounter s1)) \<and> debts s2 = debts s)"
  using assms
  by (simp add: proposeDebt_Inr confirmDebt_def addDebt_def rejectDebt_def require_def and_then_def
      Let_def transact_def no_pending_def)

theorem deferred_amount_validation_witness:
  "\<exists>s1. proposeDebt 2 0 1 0 ''nothing'' init = Inr s1 \<and> pendingDebtCounter s1 = 1 \<and>
      amount (pendingDebts s1 1) = 0 \<and> exists (pendingDebts s1 1) \<and>
      confirmDebt 3 1 (pendingDebtCounter s1) s1 = Inl (Require ''Debt amount must be positive'')"
  using deferred_amount_validation [of 1 2 init 0 "''nothing''" 3]
  by (auto simp: init_def)

lemma addDebt_same_ledger:
  assumes "debts t = debts s" and "debtActionCounter t = debtActionCounter s"
    and "addDebt now tok dbt crd amt mem t = Inr t'"
  shows "\<exists>s'. addDebt now tok dbt crd amt mem s = Inr s' \<and> debts s' = debts t'"
proof -
  note pre = addDebt_Inr_pre [OF assms(3)]
  show ?thesis
  proof (cases "amt \<le> debts s tok crd dbt")
    case True
    with assms pre show ?thesis
      by (auto simp: addDebt_le set_debt_def split: if_splits)
  next
    case False
    then have "debts s tok crd dbt < amt" by simp
    with assms pre show ?thesis
      by (auto simp: addDebt_gt set_debt_def split: if_splits)
  qed
qed

text \<open>
  C6: from any state in which the proposal (creditor, debtor, token, amount, memo) is
  accepted, a confirmation by the debtor that succeeds leaves exactly the ledger entries
  that \<open>addDebt\<close> with the same parameters leaves when called on the starting state, and one
  succeeds exactly when the other does; a rejection by the debtor or the creditor leaves
  every ledger entry as it was before the proposal.
\<close>

theorem round_trip:
  assumes "proposeDebt crd tok dbt amt mem s = Inr s1"
  shows "(\<forall>s2. confirmDebt now dbt (pendingDebtCounter s1) s1 = Inr s2 \<longrightarrow>
            (\<exists>s3. addDebt now tok dbt crd amt mem s = Inr s3 \<and> debts s3 = debts s2)) \<and>
         (\<forall>s3. addDebt now tok dbt crd amt mem s = Inr s3 \<longrightarrow>
            (\<exists>s2. confirmDebt now dbt (pendingDebtCounter s1) s1 = Inr s2 \<and> debts s2 = debts s3)) \<and>
         (\<forall>c. c = dbt \<or> c = crd \<longrightarrow>
            (\<exists>s2. rejectDebt c (pendingDebtCounter s1) s1 = Inr s2 \<and> debts s2 = debts s))"
proof -
  let ?pid = "pendingDebtCounter s + 1"
  from assms have s1: "s1 = emit (DebtProposed ?pid crd dbt tok amt mem)
            (s\<lparr>pendingDebtCounter := ?pid,
               pendingDebts := (pendingDebts s)
                 (?pid := \<lparr>creditor = crd, debtor = dbt, token = tok, amount = amt,
                      memo = mem, exists = True\<rparr>)\<rparr>)"
    by (simp add: proposeDebt_Inr)
  have led: "debts s1 = debts s" "debtActionCounter s1 = debtActionCounter s"
    "debts s = debts s1" "debtActionCounter s = debtActionCounter s1"
    by (simp_all add: s1)
  have pid: "pendingDebtCounter s1 = ?pid"
    and pend: "pendingDebts s1 ?pid =
      \<lparr>creditor = crd, debtor = dbt, token = tok, amount = amt, memo = mem, exists = True\<rparr>"
    by (simp_all add: s1)
  have conf: "confirmDebt now dbt ?pid s1 = Inr s2 \<longleftrightarrow>
      (\<exists>s1'. addDebt now tok dbt crd amt mem s1 = Inr s1' \<and>
         s2 = emit (DebtConfirmed ?pid) (s1'\<lparr>pendingDebts := (pendingDebts s1')(?pid := no_pending)\<rparr>))" for s2
    by (simp add: confirmDebt_Inr pend)
  have a: "\<exists>s3. addDebt now tok dbt crd amt mem s = Inr s3 \<and> debts s3 = debts s2"
    if "confirmDebt now dbt (pendingDebtCounter s1) s1 = Inr s2" for s2
  proof -
    from that obtain s1' where 1: "addDebt now tok dbt crd amt mem s1 = Inr s1'"
      and 2: "s2 = emit (DebtConfirmed ?pid) (s1'\<lparr>pendingDebts := (pendingDebts s1')(?pid := no_pending)\<rparr>)"
      by (auto simp: conf pid)
    from addDebt_same_ledger [OF led(1,2) 1] 2 show ?thesis by auto
  qed
  have b: "\<exists>s2. confirmDebt now dbt (pendingDebtCounter s1) s1 = Inr s2 \<and> debts s2 = debts s3"
    if "addDebt now tok dbt crd amt mem s = Inr s3" for s3
  proof -
    from addDebt_same_ledger [OF led(3,4) that] obtain s1'
      where "addDebt now tok dbt crd amt mem s1 = Inr s1'" "debts s1' = debts s3" by blast
    then show ?thesis by (simp add: conf pid)
  qed
  have c: "\<exists>s2. rejectDebt c (pendingDebtCounter s1) s1 = Inr s2 \<and> debts s2 = debts s"
    if "c = dbt \<or> c = crd" for c
    using that by (auto simp: rejectDebt_Inr pid pend led(1))
  from a b c show ?thesis by blast
qed

theorem round_trip_witness:
  "\<exists>s1 s2 s3 s4. proposeDebt 2 0 1 50 ''dinner'' init = Inr s1 \<and>
     confirmDebt 4 1 (pendingDebtCounter s1) s1 = Inr s2 \<and>
     addDebt 4 0 1 2 50 ''dinner'' init = Inr s3 \<and> debts s3 = debts s2 \<and> debts s2 0 1 2 = 50 \<and>
     rejectDebt 2 (pendingDebtCounter s1) s1 = Inr s4 \<and> debts s4 = debts init"
proof -
  have p: "proposeDebt 2 0 1 50 ''dinner'' init =
    Inr (emit (DebtProposed 1 2 1 0 50 ''dinner'')
     (init\<lparr>pendingDebtCounter := 1,
           pendingDebts := (pendingDebts init)
             (1 := \<lparr>creditor = 2, debtor = 1, token = 0, amount = 50, memo = ''dinner'', exists = True\<rparr>)\<rparr>))"
    by (simp add: proposeDebt_Inr init_def)
  have c: "\<exists>s2. confirmDebt 4 1 1 (emit (DebtProposed 1 2 1 0 50 ''dinner'')
     (init\<lparr>pendingDebtCounter := 1,
           pendingDebts := (pendingDebts init)
             (1 := \<lparr>creditor = 2, debtor = 1, token = 0, amount = 50, memo = ''dinner'', exists = True\<rparr>)\<rparr>)) = Inr s2 \<and> debts s2 0 1 2 = 50"
    by (simp add: confirmDebt_def addDebt_def require_def and_then_def checked_add_def
        checked_sub_def set_debt_def Let_def init_def)
  from round_trip [OF p, of 4] c show ?thesis
    by (simp add: p) (metis (no_types, lifting))
qed

section \<open>Proposal exclusivity\<close>

lemma resolutions_append [simp]:
  "resolutions pid (evs @ evs') = resolutions pid evs + resolutions pid evs'"
  by (simp add: resolutions_def)

lemma resolutions_simps [simp]:
  "resolutions pid [] = 0"
  "resolutions pid (e # evs) =
     (if e = DebtConfirmed pid \<or> e = DebtRejected pid then 1 else 0) + resolutions pid evs"
  by (simp_all add: resolutions_def)

lemma counter_increment:
  fixes n :: uint256
  assumes "unat n + 1 < 2 ^ 256"
  shows "n < n + 1" and "n + 1 < m \<Longrightarrow> n < m"
proof -
  have "unat (n + 1) = unat n + 1"
    using assms unat_add_lem [of n 1] by simp
  then show "n < n + 1" by (simp add: word_less_nat_alt)
  then show "n + 1 < m \<Longrightarrow> n < m" by simp
qed

lemma proposal_inv_init: "proposal_inv init"
  by (simp add: proposal_inv_def init_def no_pending_def)

lemma proposal_inv_propose:
  assumes "proposal_inv s" and "proposeDebt sender tok dbt amt mem s = Inr s'"
  shows "proposal_inv s'"
proof -
  from assms(2) have fit: "unat (pendingDebtCounter s) + 1 < 2 ^ 256"
    and s': "s' = emit (DebtProposed (pendingDebtCounter s + 1) sender dbt tok amt mem)
            (s\<lparr>pendingDebtCounter := pendingDebtCounter s + 1,
               pendingDebts := (pendingDebts s)
                 (pendingDebtCounter s + 1 :=
                    \<lparr>creditor = sender, debtor = dbt, token = tok, amount = amt,
                      memo = mem, exists = True\<rparr>)\<rparr>)"
    by (simp_all add: proposeDebt_Inr)
  note inc = counter_increment [OF fit]
  from assms(1) inc show ?thesis
    unfolding proposal_inv_def s' by auto
qed

lemma proposal_inv_confirm:
  assumes "proposal_inv s" and "confirmDebt now sender pid s = Inr s'"
  shows "proposal_inv s'"
proof -
  from assms(2) obtain s1 where ex: "exists (pendingDebts s pid)"
    and add: "addDebt now (token (pendingDebts s pid)) (debtor (pendingDebts s pid))
             (creditor (pendingDebts s pid)) (amount (pendingDebts s pid))
             (memo (pendingDebts s pid)) s = Inr s1"
    and s': "s' = emit (DebtConfirmed pid) (s1\<lparr>pendingDebts := (pendingDebts s1)(pid := no_pending)\<rparr>)"
    by (auto simp: confirmDebt_Inr)
  note fr = addDebt_frame [OF add]
  from assms(1) ex show ?thesis
    unfolding proposal_inv_def s' by (auto simp: fr no_pending_def)
qed

lemma proposal_inv_reject:
  assumes "proposal_inv s" and "rejectDebt sender pid s = Inr s'"
  shows "proposal_inv s'"
proof -
  from assms(2) have ex: "exists (pendingDebts s pid)"
    and s': "s' = emit (DebtRejected pid) (s\<lparr>pendingDebts := (pendingDebts s)(pid := no_pending)\<rparr>)"
    by (simp_all add: rejectDebt_Inr)
  from assms(1) ex show ?thesis
    unfolding proposal_inv_def s' by (auto simp: no_pending_def)
qed

lemma proposal_inv_register:
  assumes "proposal_inv s" and "registerUser discordId w s = Inr s'"
  shows "proposal_inv s'"
  using assms by (auto simp: registerUser_Inr proposal_inv_def)

lemma proposal_inv_set_debt: "proposal_inv s \<Longrightarrow> proposal_inv (set_debt tok d c v s)"
  by (simp add: proposal_inv_def)

lemma proposal_inv_settled: "proposal_inv s \<Longrightarrow> proposal_inv (emit (DebtSettled d c tok a) s)"
  by (simp add: proposal_inv_def)

lemma proposal_inv_run:
  assumes "proposal_inv s"
  shows "proposal_inv (run txs s)"
  by (rule run_invariant [where P = proposal_inv])
    (fact assms proposal_inv_propose proposal_inv_confirm proposal_inv_reject
      proposal_inv_register proposal_inv_set_debt proposal_inv_settled)+

lemma proposal_inv_exec:
  assumes "proposal_inv s" and "exec now c s = Inr s'"
  shows "proposal_inv s'"
  by (rule exec_invariant [where P = proposal_inv, OF _ _ _ _ _ _ assms])
    (fact proposal_inv_propose proposal_inv_confirm proposal_inv_reject
      proposal_inv_register proposal_inv_set_debt proposal_inv_settled)+

lemma events_grow_exec:
  "exec now c s = Inr s' \<Longrightarrow> \<exists>evs. events s' = events s @ evs"
  by (rule exec_invariant [where P = "\<lambda>t. \<exists>evs. events t = events s @ evs"])
     (auto simp: proposeDebt_Inr confirmDebt_Inr rejectDebt_Inr registerUser_Inr
        dest!: addDebt_frame(5))

lemma events_grow_run: "\<exists>evs. events (run txs s) = events s @ evs"
  by (rule run_invariant [where P = "\<lambda>t. \<exists>evs. events t = events s @ evs"])
     (auto simp: proposeDebt_Inr confirmDebt_Inr rejectDebt_Inr registerUser_Inr
        dest!: addDebt_frame(5))

lemma resolved_not_found:
  assumes "proposal_inv s" and "0 < resolutions pid (events s)"
  shows "exec now (ConfirmDebt c pid) s = Inl (Require ''Pending debt does not exist'')"
    and "exec now (RejectDebt c pid) s = Inl (Require ''Pending debt does not exist'')"
proof -
  from assms have "\<not> exists (pendingDebts s pid)"
    by (auto simp: proposal_inv_def)
  then show "exec now (ConfirmDebt c pid) s = Inl (Require ''Pending debt does not exist'')"
    and "exec now (RejectDebt c pid) s = Inl (Require ''Pending debt does not exist'')"
    by (simp_all add: confirmDebt_def rejectDebt_def require_def Let_def)
qed

lemma resolve_recorded:
  assumes "exec now (ConfirmDebt c pid) s = Inr s' \<or> exec now (RejectDebt c pid) s = Inr s'"
  shows "0 < resolutions pid (events s')"
  using assms
  by (auto simp: confirmDebt_Inr rejectDebt_Inr)

lemma one_rejected_eq:
  "exec 1 (RejectDebt 2 1) one_proposal = Inr one_rejected"
  by (simp add: one_rejected_def transact_def one_proposal_eq rejectDebt_def require_def Let_def init_def)

text \<open>
  C3: in every state reached from the deployed contract by any sequence of transactions
  (calls made back into the contract during a settlement included), at most one
  \<open>DebtConfirmed\<close> or \<open>DebtRejected\<close> event is recorded for each proposal id, never both and
  never one twice; once one is recorded, every confirm and reject of that id, by any
  caller, fails because the pending entry does not exist. In particular, after a successful
  confirm or reject of the id, and after any further transactions, exactly one resolution is
  recorded and every further confirm or reject of the id fails in that way.
\<close>

theorem proposal_exclusivity:
  "resolutions pid (events (run txs init)) \<le> 1 \<and>
   (0 < resolutions pid (events (run txs init)) \<longrightarrow>
      (\<forall>now c. exec now (ConfirmDebt c pid) (run txs init) =
                  Inl (Require ''Pending debt does not exist'') \<and>
               exec now (RejectDebt c pid) (run txs init) =
                  Inl (Require ''Pending debt does not exist''))) \<and>
   (\<forall>now c s'.
      exec now (ConfirmDebt c pid) (run txs init) = Inr s' \<or>
      exec now (RejectDebt c pid) (run txs init) = Inr s' \<longrightarrow>
      (\<forall>txs' now' c'.
         resolutions pid (events (run txs' s')) = 1 \<and>
         exec now' (ConfirmDebt c' pid) (run txs' s') =
           Inl (Require ''Pending debt does not exist'') \<and>
         exec now' (RejectDebt c' pid) (run txs' s') =
           Inl (Require ''Pending debt does not exist'')))"
proof (intro conjI allI impI)
  let ?s = "run txs init"
  have inv: "proposal_inv ?s"
    by (rule proposal_inv_run [OF proposal_inv_init])
  then show "resolutions pid (events ?s) \<le> 1"
    by (simp add: proposal_inv_def)
  {
    fix now c assume "0 < resolutions pid (events ?s)"
    with inv show "exec now (ConfirmDebt c pid) ?s = Inl (Require ''Pending debt does not exist'')"
      and "exec now (RejectDebt c pid) ?s = Inl (Require ''Pending debt does not exist'')"
      by (rule resolved_not_found)+
  }
  fix now c s' txs' now' c'
  assume ok: "exec now (ConfirmDebt c pid) ?s = Inr s' \<or> exec now (RejectDebt c pid) ?s = Inr s'"
  then have inv': "proposal_inv s'"
    using inv by (blast intro: proposal_inv_exec)
  have inv'': "proposal_inv (run txs' s')"
    by (rule proposal_inv_run [OF inv'])
  from events_grow_run [of txs' s'] obtain evs
    where "events (run txs' s') = events s' @ evs" by blast
  with resolve_recorded [OF ok] have pos: "0 < resolutions pid (events (run txs' s'))"
    by simp
  moreover from inv'' have "resolutions pid (events (run txs' s')) \<le> 1"
    by (simp add: proposal_inv_def)
  ultimately show "resolutions pid (events (run txs' s')) = 1" by simp
  from inv'' pos
  show "exec now' (ConfirmDebt c' pid) (run txs' s') = Inl (Require ''Pending debt does not exist'')"
    and "exec now' (RejectDebt c' pid) (run txs' s') = Inl (Require ''Pending debt does not exist'')"
    by (rule resolved_not_found)+
qed

theorem proposal_exclusivity_witness:
  "exec 1 (RejectDebt 2 1) (run [(0, ProposeDebt 2 0 1 50 ''dinner'')] init) = Inr one_rejected \<and>
   resolutions 1 (events (run [(5, ProposeDebt 1 0 2 3 ''tea'')] one_rejected)) = 1 \<and>
   exec 7 (ConfirmDebt 1 1) (run [(5, ProposeDebt 1 0 2 3 ''tea'')] one_rejected) =
     Inl (Require ''Pending debt does not exist'') \<and>
   exec 7 (RejectDebt 1 1) (run [(5, ProposeDebt 1 0 2 3 ''tea'')] one_rejected) =
     Inl (Require ''Pending debt does not exist'')"
proof -
  have r: "exec 1 (RejectDebt 2 1) (run [(0, ProposeDebt 2 0 1 50 ''dinner'')] init) = Inr one_rejected"
    using one_rejected_eq by (simp add: one_proposal_def)
  with proposal_exclusivity [of 1 "[(0, ProposeDebt 2 0 1 50 ''dinner'')]"]
  show ?thesis by blast
qed

section \<open>Registration\<close>

lemma registry_inv_init: "registry_inv init"
  by (simp add: registry_inv_def init_def)

lemma registry_inv_register:
  assumes inv: "registry_inv s" and reg: "registerUser discordId w s = Inr s'"
  shows "registry_inv s'"
proof -
  from reg have d0: "discordId \<noteq> []" and w0: "w \<noteq> 0"
    and fd: "discordToWallet s discordId = 0" and fw: "walletToDiscord s w = []"
    and dw: "discordToWallet s' = (discordToWallet s)(discordId := w)"
    and wd: "walletToDiscord s' = (walletToDiscord s)(w := discordId)"
    by (simp_all add: registerUser_Inr)
  have old: "discordToWallet s d = x \<and> x \<noteq> 0 \<longleftrightarrow> walletToDiscord s x = d \<and> d \<noteq> []" for d x
    using inv unfolding registry_inv_def by blast
  have "discordToWallet s' d = x \<and> x \<noteq> 0 \<longleftrightarrow> walletToDiscord s' x = d \<and> d \<noteq> []" for d x
  proof (cases "d = discordId")
    case True
    show ?thesis
    proof (cases "x = w")
      case True
      with \<open>d = discordId\<close> d0 w0 show ?thesis by (simp add: dw wd)
    next
      case False
      with \<open>d = discordId\<close> old [of discordId x] fd show ?thesis by (auto simp: dw wd)
    qed
  next
    case False
    show ?thesis
    proof (cases "x = w")
      case True
      with \<open>d \<noteq> discordId\<close> old [of d w] fw show ?thesis by (auto simp: dw wd)
    next
      case False
      with \<open>d \<noteq> discordId\<close> old [of d x] show ?thesis by (simp add: dw wd)
    qed
  qed
  then show ?thesis unfolding registry_inv_def by blast
qed

lemma registry_inv_same:
  assumes "registry_inv s" and "discordToWallet s' = discordToWallet s"
    and "walletToDiscord s' = walletToDiscord s"
  shows "registry_inv s'"
  using assms(1) unfolding registry_inv_def assms(2) assms(3) .

lemma registry_inv_propose:
  assumes "registry_inv s" and "proposeDebt sender tok dbt amt mem s = Inr s'"
  shows "registry_inv s'"
  using assms(2) by (intro registry_inv_same [OF assms(1)]) (simp_all add: proposeDebt_Inr)

lemma registry_inv_confirm:
  assumes "registry_inv s" and "confirmDebt now sender pid s = Inr s'"
  shows "registry_inv s'"
proof -
  from assms(2) obtain s1 where
    add: "addDebt now (token (pendingDebts s pid)) (debtor (pendingDebts s pid))
             (creditor (pendingDebts s pid)) (amount (pendingDebts s pid))
             (memo (pendingDebts s pid)) s = Inr s1"
    and s': "s' = emit (DebtConfirmed pid) (s1\<lparr>pendingDebts := (pendingDebts s1)(pid := no_pending)\<rparr>)"
    by (auto simp: confirmDebt_Inr)
  show ?thesis
    by (rule registry_inv_same [OF assms(1)]) (simp_all add: s' addDebt_frame [OF add])
qed

lemma registry_inv_reject:
  assumes "registry_inv s" and "rejectDebt sender pid s = Inr s'"
  shows "registry_inv s'"
  using assms(2) by (intro registry_inv_same [OF assms(1)]) (simp_all add: rejectDebt_Inr)

lemma registry_inv_set_debt: "registry_inv s \<Longrightarrow> registry_inv (set_debt tok d c v s)"
  by (erule registry_inv_same) simp_all

lemma registry_inv_settled: "registry_inv s \<Longrightarrow> registry_inv (emit (DebtSettled d c tok a) s)"
  by (erule registry_inv_same) simp_all

lemma registry_inv_run:
  assumes "registry_inv s"
  shows "registry_inv (run txs s)"
  by (rule run_invariant [where P = registry_inv])
    (fact assms registry_inv_propose registry_inv_confirm registry_inv_reject
      registry_inv_register registry_inv_set_debt registry_inv_settled)+

lemma registered_in_same:
  assumes "registered_in s t" and "discordToWallet t' = discordToWallet t"
    and "walletToDiscord t' = walletToDiscord t"
  shows "registered_in s t'"
  using assms(1) unfolding registered_in_def assms(2) assms(3) .

lemma registered_in_run: "registered_in s (run txs s)"
proof (rule run_invariant [where P = "registered_in s"])
  show "registered_in s s" by (simp add: registered_in_def)
next
  fix sender tok dbt amt mem t t'
  assume t: "registered_in s t" and "proposeDebt sender tok dbt amt mem t = Inr t'"
  then show "registered_in s t'"
    by (intro registered_in_same [OF t]) (simp_all add: proposeDebt_Inr)
next
  fix now sender pid t t'
  assume t: "registered_in s t" and "confirmDebt now sender pid t = Inr t'"
  then obtain t1 where
    add: "addDebt now (token (pendingDebts t pid)) (debtor (pendingDebts t pid))
             (creditor (pendingDebts t pid)) (amount (pendingDebts t pid))
             (memo (pendingDebts t pid)) t = Inr t1"
    and t': "t' = emit (DebtConfirmed pid) (t1\<lparr>pendingDebts := (pendingDebts t1)(pid := no_pending)\<rparr>)"
    by (auto simp: confirmDebt_Inr)
  show "registered_in s t'"
    by (rule registered_in_same [OF t]) (simp_all add: t' addDebt_frame [OF add])
next
  fix sender pid t t'
  assume t: "registered_in s t" and "rejectDebt sender pid t = Inr t'"
  then show "registered_in s t'"
    by (intro registered_in_same [OF t]) (simp_all add: rejectDebt_Inr)
next
  fix discordId w t t'
  assume r: "registered_in s t" and reg: "registerUser discordId w t = Inr t'"
  from reg have fd: "discordToWallet t discordId = 0" and fw: "walletToDiscord t w = []"
    and dw: "discordToWallet t' = (discordToWallet t)(discordId := w)"
    and wd: "walletToDiscord t' = (walletToDiscord t)(w := discordId)"
    by (simp_all add: registerUser_Inr)
  show "registered_in s t'"
    unfolding registered_in_def
  proof (intro conjI allI impI)
    fix d assume d: "discordToWallet s d \<noteq> 0"
    with r have "discordToWallet t d = discordToWallet s d"
      unfolding registered_in_def by blast
    with d fd have "d \<noteq> discordId" by auto
    then show "discordToWallet t' d = discordToWallet s d"
      using \<open>discordToWallet t d = discordToWallet s d\<close> by (simp add: dw)
  next
    fix x assume x: "walletToDiscord s x \<noteq> []"
    with r have "walletToDiscord t x = walletToDiscord s x"
      unfolding registered_in_def by blast
    with x fw have "x \<noteq> w" by auto
    then show "walletToDiscord t' x = walletToDiscord s x"
      using \<open>walletToDiscord t x = walletToDiscord s x\<close> by (simp add: wd)
  qed
next
  fix tok d c t assume "registered_in s t"
  then show "registered_in s (set_debt tok d c 0 t)" by (rule registered_in_same) simp_all
next
  fix d c tok a t assume "registered_in s t"
  then show "registered_in s (emit (DebtSettled d c tok a) t)" by (rule registered_in_same) simp_all
qed

lemma one_registered_eq:
  "one_registered = emit (UserRegistered ''alice'' 5)
     (init\<lparr>discordToWallet := (\<lambda>_. 0)(''alice'' := 5), walletToDiscord := (\<lambda>_. [])(5 := ''alice'')\<rparr>)"
  by (simp add: one_registered_def run_def transact_def registerUser_def require_def init_def)

text \<open>
  C10: \<open>registerUser\<close> succeeds exactly when the id is non-empty, the wallet is not the zero
  address, the id has no wallet yet and the wallet has no id yet, and it then maps each to
  the other. In every state reached from the deployed contract the two mappings are inverse
  to each other on the registered part, so no two ids share a wallet and no two wallets
  share an id. No sequence of transactions, from any state, removes or overwrites a
  registration.
\<close>

theorem registration_one_to_one:
  "(registerUser discordId walletAddress s = Inr s' \<longrightarrow>
      discordId \<noteq> [] \<and> walletAddress \<noteq> 0 \<and> discordToWallet s discordId = 0 \<and>
      walletToDiscord s walletAddress = [] \<and>
      discordToWallet s' discordId = walletAddress \<and> walletToDiscord s' walletAddress = discordId) \<and>
   (discordId \<noteq> [] \<and> walletAddress \<noteq> 0 \<and> discordToWallet s discordId = 0 \<and>
      walletToDiscord s walletAddress = [] \<longrightarrow>
      (\<exists>t. registerUser discordId walletAddress s = Inr t)) \<and>
   (\<forall>d w. discordToWallet (run txs init) d = w \<and> w \<noteq> 0 \<longleftrightarrow>
          walletToDiscord (run txs init) w = d \<and> d \<noteq> []) \<and>
   (\<forall>d d'. discordToWallet (run txs init) d = discordToWallet (run txs init) d' \<and>
           discordToWallet (run txs init) d \<noteq> 0 \<longrightarrow> d = d') \<and>
   (\<forall>w w'. walletToDiscord (run txs init) w = walletToDiscord (run txs init) w' \<and>
           walletToDiscord (run txs init) w \<noteq> [] \<longrightarrow> w = w') \<and>
   (\<forall>d. discordToWallet s d \<noteq> 0 \<longrightarrow> discordToWallet (run txs' s) d = discordToWallet s d) \<and>
   (\<forall>w. walletToDiscord s w \<noteq> [] \<longrightarrow> walletToDiscord (run txs' s) w = walletToDiscord s w)"
proof -
  have inv: "registry_inv (run txs init)"
    by (rule registry_inv_run [OF registry_inv_init])
  have 1: "\<forall>d w. discordToWallet (run txs init) d = w \<and> w \<noteq> 0 \<longleftrightarrow>
          walletToDiscord (run txs init) w = d \<and> d \<noteq> []"
    using inv unfolding registry_inv_def by blast
  have 2: "\<forall>d d'. discordToWallet (run txs init) d = discordToWallet (run txs init) d' \<and>
           discordToWallet (run txs init) d \<noteq> 0 \<longrightarrow> d = d'"
    using 1 by metis
  have 3: "\<forall>w w'. walletToDiscord (run txs init) w = walletToDiscord (run txs init) w' \<and>
           walletToDiscord (run txs init) w \<noteq> [] \<longrightarrow> w = w'"
    using 1 by metis
  have 4: "(\<forall>d. discordToWallet s d \<noteq> 0 \<longrightarrow> discordToWallet (run txs' s) d = discordToWallet s d) \<and>
   (\<forall>w. walletToDiscord s w \<noteq> [] \<longrightarrow> walletToDiscord (run txs' s) w = walletToDiscord s w)"
    using registered_in_run [of s txs'] by (simp add: registered_in_def)
  have 5: "registerUser discordId walletAddress s = Inr s' \<longrightarrow>
      discordId \<noteq> [] \<and> walletAddress \<noteq> 0 \<and> discordToWallet s discordId = 0 \<and>
      walletToDiscord s walletAddress = [] \<and>
      discordToWallet s' discordId = walletAddress \<and> walletToDiscord s' walletAddress = discordId"
    by (auto simp: registerUser_Inr)
  have 6: "discordId \<noteq> [] \<and> walletAddress \<noteq> 0 \<and> discordToWallet s discordId = 0 \<and>
      walletToDiscord s walletAddress = [] \<longrightarrow>
      (\<exists>t. registerUser discordId walletAddress s = Inr t)"
    by (simp add: registerUser_Inr)
  from 1 2 3 4 5 6 show ?thesis by blast
qed

theorem registration_one_to_one_witness:
  "(\<exists>t. registerUser ''alice'' 5 init = Inr t) \<and>
   discordToWallet one_registered ''alice'' = 5 \<and>
   discordToWallet
     (run [(1, RegisterUser 9 ''alice'' 6), (2, RegisterUser 9 ''bob'' 5)] one_registered) ''alice'' = 5 \<and>
   walletToDiscord
     (run [(1, RegisterUser 9 ''alice'' 6), (2, RegisterUser 9 ''bob'' 5)] one_registered) 5 = ''alice''"
proof -
  have a: "discordToWallet one_registered ''alice'' = 5" "walletToDiscord one_registered 5 = ''alice''"
    by (simp_all add: one_registered_eq)
  have i: "''alice'' \<noteq> [] \<and> (5 :: address) \<noteq> 0 \<and> discordToWallet init ''alice'' = 0 \<and>
      walletToDiscord init 5 = []"
    by (simp add: init_def)
  note w = registration_one_to_one
    [of _ _ one_registered _ _ "[(1, RegisterUser 9 ''alice'' 6), (2, RegisterUser 9 ''bob'' 5)]"]
  have 1: "\<exists>t. registerUser ''alice'' 5 init = Inr t"
    by (rule registration_one_to_one [of "''alice''" 5 init, THEN conjunct2, THEN conjunct1,
          THEN mp, OF i])
  have "discordToWallet one_registered ''alice'' \<noteq> 0" by (simp add: a)
  with w [THEN conjunct2, THEN conjunct2, THEN conjunct2, THEN conjunct2, THEN conjunct2,
      THEN conjunct1, THEN spec, of "''alice''"]
  have 2: "discordToWallet
     (run [(1, RegisterUser 9 ''alice'' 6), (2, RegisterUser 9 ''bob'' 5)] one_registered) ''alice'' = 5"
    by (simp add: a)
  have "walletToDiscord one_registered 5 \<noteq> []" by (simp add: a)
  with w [THEN conjunct2, THEN conjunct2, THEN conjunct2, THEN conjunct2, THEN conjunct2,
      THEN conjunct2, THEN spec, of 5]
  have 3: "walletToDiscord
     (run [(1, RegisterUser 9 ''alice'' 6), (2, RegisterUser 9 ''bob'' 5)] one_registered) 5 = ''alice''"
    by (simp add: a)
  from 1 2 3 a show ?thesis by simp
qed

section \<open>Settlement\<close>

lemma one_debt_eq:
  "one_debt = init\<lparr>debts := (\<lambda>_ _ _. 0)(7 := (\<lambda>_ _. 0)(1 := (\<lambda>_. 0)(2 := 50))),
      debtActionCounter := 1, pendingDebtCounter := 1,
      events := [DebtProposed 1 2 1 7 50 ''dinner'', DebtAdded 1 1 2 7 50 ''dinner'' 3, DebtConfirmed 1]\<rparr>"
  by (simp add: one_debt_def run_def transact_def proposeDebt_def confirmDebt_def addDebt_def
      require_def and_then_def checked_add_def checked_sub_def emit_def set_debt_def Let_def
      init_def no_pending_def fun_eq_iff)

lemma debt_and_proposal_eq:
  "debt_and_proposal = one_debt\<lparr>pendingDebtCounter := 2,
      pendingDebts := (\<lambda>_. no_pending)
        (2 := \<lparr>creditor = 2, debtor = 1, token = 7, amount = 5, memo = ''tip'', exists = True\<rparr>),
      events := events one_debt @ [DebtProposed 2 2 1 7 5 ''tip'']\<rparr>"
  by (simp add: debt_and_proposal_def one_debt_eq run_def transact_def proposeDebt_def
      require_def and_then_def checked_add_def emit_def init_def)

text \<open>
  C4: the claim holds when the token's \<open>transferFrom\<close> reverts, and fails when it reports the
  failure by returning \<open>false\<close>, as the ERC20 interface allows: \<open>settleDebt\<close> drops the returned
  boolean. With debtor 1 owing creditor 2 the amount 50 of token 7: if the transfer reverts,
  the settlement reverts and the state is as before; if the transfer returns \<open>false\<close>, the
  settlement succeeds, the entry is zero afterwards and \<open>DebtSettled\<close> is recorded although
  nothing was transferred.
\<close>

theorem settle_unchecked_transfer:
  "debts one_debt 7 1 2 = 50 \<and>
   exec 4 (SettleDebt 1 7 2 [] None) one_debt = Inl ExternalRevert \<and>
   transact 4 (SettleDebt 1 7 2 [] None) one_debt = one_debt \<and>
   exec 4 (SettleDebt 1 7 2 [] (Some False)) one_debt =
     Inr (transact 4 (SettleDebt 1 7 2 [] (Some False)) one_debt) \<and>
   debts (transact 4 (SettleDebt 1 7 2 [] (Some False)) one_debt) 7 1 2 = 0 \<and>
   events (transact 4 (SettleDebt 1 7 2 [] (Some False)) one_debt) =
     events one_debt @ [DebtSettled 1 2 7 50]"
  by (simp add: transact_def exec_SettleDebt one_debt_eq debts_set_debt)

text \<open>
  C5, as stated, fails in its last part: the entry is zeroed before the transfer, but nothing
  keeps a call made back into the contract during the transfer from raising it again. In
  \<open>debt_and_proposal\<close> debtor 1 settles its debt of 50 to creditor 2, and during the transfer
  confirms the open proposal 2 (a debt of 5 to the same creditor): the transfer and the
  settlement succeed, and the entry is 5 afterwards, not 0.
\<close>

theorem settle_effect_counterexample:
  "debts debt_and_proposal 7 1 2 = 50 \<and>
   exec 6 (SettleDebt 1 7 2 [ConfirmDebt 1 2] (Some True)) debt_and_proposal =
     Inr (transact 6 (SettleDebt 1 7 2 [ConfirmDebt 1 2] (Some True)) debt_and_proposal) \<and>
   debts (transact 6 (SettleDebt 1 7 2 [ConfirmDebt 1 2] (Some True)) debt_and_proposal) 7 1 2 = 5"
  by (simp add: transact_def exec_SettleDebt debt_and_proposal_eq one_debt_eq debts_set_debt
      confirmDebt_def addDebt_def require_def and_then_def checked_add_def checked_sub_def
      set_debt_def emit_def Let_def init_def)

text \<open>
  C5 (amended): \<open>settleDebt\<close> fails with its message for an empty entry whenever the caller's
  entry towards the creditor is 0. When the entry is \<open>v > 0\<close>, the transfer of \<open>v\<close> is invoked
  on the state in which the entry is already zero, so a settlement of the same entry
  attempted from inside the transfer fails; the settlement fails if the transfer reverts;
  if the transfer returns \<open>true\<close>, the settlement succeeds and its final state is the state
  that the calls made during the transfer left, with one \<open>DebtSettled\<close> event for debtor,
  creditor, token and \<open>v\<close> appended; when the transfer makes no call back into the contract,
  the entry is 0 afterwards, every other entry is unchanged and that event is the only one
  added.
\<close>

theorem settle_effect:
  "(debts s tok sender crd = 0 \<longrightarrow>
      (\<forall>calls outcome. exec now (SettleDebt sender tok crd calls outcome) s =
         Inl (Require ''No debt to settle''))) \<and>
   (0 < debts s tok sender crd \<longrightarrow>
      (\<forall>transferFrom. settleDebt transferFrom sender tok crd s =
         (case transferFrom tok sender crd (debts s tok sender crd) (set_debt tok sender crd 0 s) of
            None \<Rightarrow> Inl ExternalRevert
          | Some (returned, s2) \<Rightarrow>
              Inr (emit (DebtSettled sender crd tok (debts s tok sender crd)) s2))) \<and>
      debts (set_debt tok sender crd 0 s) tok sender crd = 0 \<and>
      (\<forall>calls outcome. exec now (SettleDebt sender tok crd calls outcome) (set_debt tok sender crd 0 s) =
         Inl (Require ''No debt to settle'')) \<and>
      exec now (SettleDebt sender tok crd reentrant None) s = Inl ExternalRevert \<and>
      exec now (SettleDebt sender tok crd reentrant (Some True)) s =
        Inr (emit (DebtSettled sender crd tok (debts s tok sender crd))
               (fold (transact now) reentrant (set_debt tok sender crd 0 s))) \<and>
      (\<exists>s'. exec now (SettleDebt sender tok crd [] (Some True)) s = Inr s' \<and>
            debts s' tok sender crd = 0 \<and>
            (\<forall>t d c. (t, d, c) \<noteq> (tok, sender, crd) \<longrightarrow> debts s' t d c = debts s t d c) \<and>
            events s' = events s @ [DebtSettled sender crd tok (debts s tok sender crd)]))"
  by (auto simp: exec_SettleDebt settleDebt_def require_def Let_def debts_set_debt
      word_greater_zero_iff split: option.splits)

theorem settle_effect_witness:
  "exec 4 (SettleDebt 2 7 1 [] (Some True)) one_debt = Inl (Require ''No debt to settle'') \<and>
   exec 4 (SettleDebt 1 7 2 [SettleDebt 1 7 2 [] (Some True)] None) one_debt = Inl ExternalRevert \<and>
   exec 4 (SettleDebt 1 7 2 [SettleDebt 1 7 2 [] (Some True)] (Some True)) one_debt =
     Inr (emit (DebtSettled 1 2 7 50) (set_debt 7 1 2 0 one_debt))"
proof -
  have z: "debts one_debt 7 2 1 = 0" and p: "0 < debts one_debt 7 1 2"
    and v: "debts one_debt 7 1 2 = 50"
    by (simp_all add: one_debt_eq)
  note e = settle_effect [of one_debt 7 2 1 4]
  note f = settle_effect [of one_debt 7 1 2 4 "[SettleDebt 1 7 2 [] (Some True)]"]
  from e z have 1: "exec 4 (SettleDebt 2 7 1 [] (Some True)) one_debt = Inl (Require ''No debt to settle'')"
    by blast
  from f p have 2: "exec 4 (SettleDebt 1 7 2 [SettleDebt 1 7 2 [] (Some True)] None) one_debt = Inl ExternalRevert"
    by blast
  from f p have n: "exec 4 (SettleDebt 1 7 2 [] (Some True)) (set_debt 7 1 2 0 one_debt) =
         Inl (Require ''No debt to settle'')"
    by blast
  from f p have "exec 4 (SettleDebt 1 7 2 [SettleDebt 1 7 2 [] (Some True)] (Some True)) one_debt =
        Inr (emit (DebtSettled 1 2 7 (debts one_debt 7 1 2))
               (fold (transact 4) [SettleDebt 1 7 2 [] (Some True)] (set_debt 7 1 2 0 one_debt)))"
    by blast
  with n v have 3: "exec 4 (SettleDebt 1 7 2 [SettleDebt 1 7 2 [] (Some True)] (Some True)) one_debt =
     Inr (emit (DebtSettled 1 2 7 50) (set_debt 7 1 2 0 one_debt))"
    by (simp add: transact_def)
  from 1 2 3 show ?thesis by simp
qed

section \<open>The balance command against the ledger and the log\<close>

lemma resolutions_rev [simp]: "resolutions pid (rev evs) = resolutions pid evs"
  by (simp add: resolutions_def flip: rev_filter)

lemma isDebtResolved_resolutions: "isDebtResolved s pid \<longleftrightarrow> 0 < resolutions pid (events s)"
  by (auto simp: isDebtResolved_def resolutions_def Let_def filter_empty_conv)

lemma still_open_simps [simp]:
  "still_open evs (DebtProposed pid c d t a m) \<longleftrightarrow> resolutions pid evs = 0"
  "\<not> still_open evs (DebtAdded n dd cc tt aa mm ts)"
  "\<not> still_open evs (DebtSettled dd cc tt aa)"
  "\<not> still_open evs (DebtConfirmed pid)"
  "\<not> still_open evs (DebtRejected pid)"
  "\<not> still_open evs (UserRegistered u w)"
  by (simp_all add: still_open_def)

lemma scan_still_open:
  "filter (unresolved s) (filter isDebtProposed (events s)) = filter (still_open (events s)) (events s)"
proof -
  have "isDebtProposed e \<and> unresolved s e \<longleftrightarrow> still_open (events s) e" for e
    by (cases e) (simp_all add: isDebtResolved_resolutions)
  then show ?thesis by (simp add: conj_commute)
qed

lemma still_open_snoc:
  "still_open (evs @ [DebtConfirmed pid]) = (\<lambda>x. still_open evs x \<and> proposalId x \<noteq> Some pid)"
  "still_open (evs @ [DebtRejected pid]) = (\<lambda>x. still_open evs x \<and> proposalId x \<noteq> Some pid)"
  "still_open (evs @ [DebtProposed i c d t a m]) = still_open evs"
  "still_open (evs @ [DebtAdded n dd cc tt aa mm ts]) = still_open evs"
  "still_open (evs @ [DebtSettled dd cc tt aa]) = still_open evs"
  "still_open (evs @ [UserRegistered u w]) = still_open evs"
  by (rule ext, case_tac x, auto)+

lemma replay_snoc: "replay (evs @ [e]) = replay_step (replay evs) e"
  by (simp add: replay_def)

lemma replay_scan:
  "fresh_ids (rev evs) \<Longrightarrow> replay evs = filter (still_open evs) evs"
proof (induction evs rule: rev_induct)
  case Nil
  then show ?case by (simp add: replay_def)
next
  case (snoc e evs)
  from snoc.prems have fr: "fresh_ids (rev evs)"
    by (cases e) simp_all
  from snoc.IH [OF fr] have IH: "replay evs = filter (still_open evs) evs" .
  show ?case
  proof (cases e)
    case (DebtProposed pid c d t a m)
    with snoc.prems have "resolutions pid evs = 0" by simp
    with DebtProposed show ?thesis
      by (simp add: replay_snoc IH still_open_snoc)
  qed (simp_all add: replay_snoc IH still_open_snoc conj_commute)
qed

lemma log_inv_init: "log_inv init"
  by (simp add: log_inv_def proposal_inv_init) (simp add: init_def)

lemma log_inv_propose:
  assumes "log_inv s" and "proposeDebt sender tok dbt amt mem s = Inr s'"
  shows "log_inv s'"
proof -
  from assms(1) have inv: "proposal_inv s" and fr: "fresh_ids (rev (events s))"
    by (simp_all add: log_inv_def)
  from assms(2) have fit: "unat (pendingDebtCounter s) + 1 < 2 ^ 256"
    and ev: "events s' = events s @ [DebtProposed (pendingDebtCounter s + 1) sender dbt tok amt mem]"
    by (simp_all add: proposeDebt_Inr)
  from inv counter_increment(1) [OF fit]
  have "resolutions (pendingDebtCounter s + 1) (events s) = 0"
    by (simp add: proposal_inv_def)
  with fr have "fresh_ids (rev (events s'))" by (simp add: ev)
  with proposal_inv_propose [OF inv assms(2)] show ?thesis by (simp add: log_inv_def)
qed

lemma log_inv_confirm:
  assumes "log_inv s" and "confirmDebt now sender pid s = Inr s'"
  shows "log_inv s'"
proof -
  from assms(1) have inv: "proposal_inv s" and fr: "fresh_ids (rev (events s))"
    by (simp_all add: log_inv_def)
  from assms(2) obtain s1 where
    add: "addDebt now (token (pendingDebts s pid)) (debtor (pendingDebts s pid))
             (creditor (pendingDebts s pid)) (amount (pendingDebts s pid))
             (memo (pendingDebts s pid)) s = Inr s1"
    and s': "s' = emit (DebtConfirmed pid) (s1\<lparr>pendingDebts := (pendingDebts s1)(pid := no_pending)\<rparr>)"
    by (auto simp: confirmDebt_Inr)
  from fr have "fresh_ids (rev (events s'))" by (simp add: s' addDebt_frame(5) [OF add])
  with proposal_inv_confirm [OF inv assms(2)] show ?thesis by (simp add: log_inv_def)
qed

lemma log_inv_reject:
  assumes "log_inv s" and "rejectDebt sender pid s = Inr s'"
  shows "log_inv s'"
proof -
  from assms(1) have inv: "proposal_inv s" and fr: "fresh_ids (rev (events s))"
    by (simp_all add: log_inv_def)
  from assms(2) have "events s' = events s @ [DebtRejected pid]" by (simp add: rejectDebt_Inr)
  with fr have "fresh_ids (rev (events s'))" by simp
  with proposal_inv_reject [OF inv assms(2)] show ?thesis by (simp add: log_inv_def)
qed

lemma log_inv_register:
  assumes "log_inv s" and "registerUser discordId w s = Inr s'"
  shows "log_inv s'"
proof -
  from assms(1) have inv: "proposal_inv s" and fr: "fresh_ids (rev (events s))"
    by (simp_all add: log_inv_def)
  from assms(2) have "events s' = events s @ [UserRegistered discordId w]"
    by (simp add: registerUser_Inr)
  with fr have "fresh_ids (rev (events s'))" by simp
  with proposal_inv_register [OF inv assms(2)] show ?thesis by (simp add: log_inv_def)
qed

lemma log_inv_set_debt: "log_inv s \<Longrightarrow> log_inv (set_debt tok d c v s)"
  by (simp add: log_inv_def proposal_inv_set_debt)

lemma log_inv_settled: "log_inv s \<Longrightarrow> log_inv (emit (DebtSettled d c tok a) s)"
  by (simp add: log_inv_def proposal_inv_settled)

lemma log_inv_run: "log_inv (run txs init)"
  by (rule run_invariant [where P = log_inv])
    (fact log_inv_init log_inv_propose log_inv_confirm log_inv_reject
      log_inv_register log_inv_set_debt log_inv_settled)+

lemma pending_total_simps [simp]:
  "pending_total tok dbt crd [] = 0"
  "pending_total tok dbt crd (e # evs) = contribution tok dbt crd e + pending_total tok dbt crd evs"
  by (simp_all add: pending_total_def)

lemma fold_addPending:
  assumes "user1 \<noteq> user2"
  shows "fold (addPending user1 user2) (filter (relevant tok user1 user2) evs) (x, y) =
         (x + pending_total tok user1 user2 evs, y + pending_total tok user2 user1 evs)"
proof (induction evs arbitrary: x y)
  case Nil
  show ?case by simp
next
  case (Cons e evs)
  show ?case
  proof (cases e)
    case (DebtProposed pid c d t a m)
    with assms Cons.IH show ?thesis by (auto simp: Let_def)
  qed (simp_all add: Cons.IH)
qed

text \<open>
  In every state reached from the deployed contract, the pending figures that the command
  obtains by scanning the log are the totals that a replay of the log gives, and the
  confirmed figures are the ledger entries. The directions are the other way round from
  the lines they are printed on: the line "They owe you" carries what \<open>user1\<close>, the asking
  user, owes as debtor, and the line "You owe them" what \<open>user2\<close> owes.
\<close>

lemma balance_pending_replay:
  assumes "user1 \<noteq> user2"
  shows "theyOweYouPending (balance (run txs init) tok user1 user2) =
           pending_total tok user1 user2 (replay (events (run txs init)))"
    and "youOweThemPending (balance (run txs init) tok user1 user2) =
           pending_total tok user2 user1 (replay (events (run txs init)))"
    and "theyOweYou (balance (run txs init) tok user1 user2) = debts (run txs init) tok user1 user2"
    and "youOweThem (balance (run txs init) tok user1 user2) = debts (run txs init) tok user2 user1"
proof -
  let ?s = "run txs init"
  have "fresh_ids (rev (events ?s))"
    using log_inv_run [of txs] by (simp add: log_inv_def)
  then have rp: "replay (events ?s) = filter (still_open (events ?s)) (events ?s)"
    by (rule replay_scan)
  have "filter (unresolved ?s) (filter (relevant tok user1 user2) (filter isDebtProposed (events ?s))) =
        filter (relevant tok user1 user2) (filter (unresolved ?s) (filter isDebtProposed (events ?s)))"
    by (auto intro: filter_cong)
  also have "\<dots> = filter (relevant tok user1 user2) (replay (events ?s))"
    by (simp only: scan_still_open rp)
  finally have scan: "filter (unresolved ?s) (filter (relevant tok user1 user2)
      (filter isDebtProposed (events ?s))) = filter (relevant tok user1 user2) (replay (events ?s))" .
  show "theyOweYouPending (balance ?s tok user1 user2) = pending_total tok user1 user2 (replay (events ?s))"
    and "youOweThemPending (balance ?s tok user1 user2) = pending_total tok user2 user1 (replay (events ?s))"
    and "theyOweYou (balance ?s tok user1 user2) = debts ?s tok user1 user2"
    and "youOweThem (balance ?s tok user1 user2) = debts ?s tok user2 user1"
    unfolding balance_def Let_def scan fold_addPending [OF assms] by simp_all
qed


text \<open>
  C9: the scan and the replay agree, but the figures are attached to the wrong direction.
  With one open proposal in which account 2 is the creditor and account 1 the debtor of 50,
  the command tells account 1 "They owe you (pending): 50" and "You owe them (pending): 0",
  and tells account 2 the reverse; once such a debt is confirmed (\<open>one_debt\<close>, where the
  ledger holds 50 for debtor 1 towards creditor 2) it tells account 1 "They owe you: 50".
\<close>

theorem balance_direction_swapped:
  "exists (pendingDebts one_proposal 1) \<and> debtor (pendingDebts one_proposal 1) = 1 \<and>
   creditor (pendingDebts one_proposal 1) = 2 \<and> token (pendingDebts one_proposal 1) = 0 \<and>
   amount (pendingDebts one_proposal 1) = 50 \<and>
   balance one_proposal 0 1 2 =
     \<lparr>youOweThem = 0, theyOweYou = 0, youOweThemPending = 0, theyOweYouPending = 50\<rparr> \<and>
   balance one_proposal 0 2 1 =
     \<lparr>youOweThem = 0, theyOweYou = 0, youOweThemPending = 50, theyOweYouPending = 0\<rparr> \<and>
   debts one_debt 7 1 2 = 50 \<and>
   balance one_debt 7 1 2 =
     \<lparr>youOweThem = 0, theyOweYou = 50, youOweThemPending = 0, theyOweYouPending = 0\<rparr>"
  by (simp add: balance_def isDebtResolved_def one_proposal_eq one_debt_eq init_def Let_def)

end
